theory Spec2Isabelle
  imports Complex_Main "HOL-Library.AList"
begin

section \<open>The model residency cache of utils/models/comfyui\_model\_wrapper.py\<close>

text \<open>
  The module wraps model instances in \<open>ComfyUIModelWrapper\<close> objects and indexes the
  wrappers by key in \<open>ComfyUITTSModelManager._model_cache\<close>. Wrappers and instances are
  Python objects with identity, so both live in a store indexed by address; the
  dictionary holds wrapper addresses in insertion order. The module-level variable
  \<open>_global_cache_invalidation_flag\<close> is a field of the same state.
\<close>

subsection \<open>Values of the environment\<close>

type_synonym addr = nat

text \<open>The exceptions the module can let escape, by where they arise.\<close>

datatype error =
    FactoryError       \<comment> \<open>\<open>model_factory_func(**factory_kwargs)\<close> raised\<close>
  | ParametersError    \<comment> \<open>\<open>model.parameters()\<close> or a parameter's size query raised\<close>
  | TransferError      \<comment> \<open>\<open>.to(device)\<close> raised\<close>
  | DeviceError        \<comment> \<open>\<open>torch.device(name)\<close> rejected the name\<close>
  | WeakrefError       \<comment> \<open>\<open>weakref.ref(model)\<close> rejected the object\<close>
  | AssignError        \<comment> \<open>\<open>model.engine.cuda_graphs_initialized = False\<close> raised\<close>

text \<open>
  A device is a string (\<open>'cpu'\<close>, \<open>'cuda'\<close>, \<open>'auto'\<close>) or a \<open>torch.device\<close> object, which
  \<open>__init__\<close> stores in \<open>load_device\<close> and \<open>model_load\<close> can copy into
  \<open>current_device\<close>. A \<open>torch.device\<close> never compares equal to a string.
\<close>

datatype dev = DStr string | DTorch string "nat option"

text \<open>
  What \<open>hasattr(x, 'parameters')\<close> and \<open>x.parameters()\<close> give: no such attribute, the
  list of parameter buffers as pairs (\<open>nelement()\<close>, \<open>element_size()\<close>), or an attribute
  whose enumeration raises.
\<close>

datatype params_attr = NoParameters | Parameters "(int \<times> int) list" | ParametersRaise

text \<open>
  A value of the instance's \<open>__dict__\<close>. \<open>c_to\<close> is \<open>None\<close> when the value has no
  \<open>to\<close> attribute, and otherwise tells for which targets the call raises.
\<close>

record component =
  c_parameters :: params_attr
  c_to :: "(dev \<Rightarrow> bool) option"
  c_device :: dev

text \<open>
  The wrapped instance, as far as the module probes it: \<open>parameters\<close>, \<open>to\<close>,
  \<open>__dict__\<close>, the value of \<open>model.engine.cuda_graphs_initialized\<close> (\<open>None\<close> when
  \<open>hasattr(model, 'engine')\<close> or \<open>hasattr(model.engine, 'cuda_graphs_initialized')\<close>
  fails), whether an assignment to that attribute succeeds (it raises for a read-only
  property), and whether \<open>weakref.ref\<close> accepts the object. \<open>i_device\<close> is the target of
  the last transfer that succeeded.
\<close>

record inst =
  i_parameters :: params_attr
  i_to :: "(dev \<Rightarrow> bool) option"
  i_dict :: "(string \<times> component) list option"
  i_cuda_graphs_initialized :: "bool option"
  i_flag_assignable :: bool
  i_weakrefable :: bool
  i_device :: dev

text \<open>The \<open>ModelInfo\<close> dataclass; \<open>info_model\<close> is the address of the instance.\<close>

record ModelInfo =
  info_model :: "addr option"
  model_type :: string
  engine :: string
  info_device :: string
  info_memory_size :: int
  info_load_device :: string

text \<open>
  The fields of \<open>ComfyUIModelWrapper\<close> that the methods read or write. The attributes
  that \<open>__init__\<close> sets to constants for the host and that no method of the module
  reads (\<open>dtype\<close>, \<open>offload_device\<close>, \<open>model_patches_models\<close>, \<open>parent\<close>,
  \<open>currently_used\<close>, the finalizers, \<open>model_patches_to\<close>, \<open>model_options\<close>,
  \<open>model_keys\<close>) are left out. \<open>_model_ref\<close> is a weak reference to the object that
  \<open>model\<close> references strongly, so it yields \<open>model\<close> for as long as the wrapper lives.
\<close>

record wrapper =
  model :: "addr option"
  model_info :: ModelInfo
  load_device :: dev
  current_device :: dev
  memory_size :: int
  device :: dev
  is_loaded_on_gpu :: bool
  is_valid_for_reuse :: bool

text \<open>
  What the module asks of torch. \<open>torch_device name\<close> is what \<open>torch.device(name)\<close> gives:
  \<open>None\<close> when it rejects the name, and otherwise the type and the index of the device,
  so that \<open>'cuda:0'\<close> gives the type \<open>cuda\<close> and the index 0.
\<close>

record torch_env =
  cuda_is_available :: bool
  cuda_current_device :: nat
  torch_device :: "string \<Rightarrow> (string \<times> nat option) option"

subsection \<open>Memory estimation\<close>

primrec sum_parameters :: "(int \<times> int) list \<Rightarrow> int \<Rightarrow> int" where
  "sum_parameters [] total_size = total_size"
| "sum_parameters (p # ps) total_size = sum_parameters ps (total_size + fst p * snd p)"

fun estimate_model_memory :: "params_attr \<Rightarrow> error + int" where
  "estimate_model_memory NoParameters = Inr 0"
| "estimate_model_memory (Parameters ps) = Inr (sum_parameters ps 0)"
| "estimate_model_memory ParametersRaise = Inl ParametersError"

fun sum_components :: "component list \<Rightarrow> int \<Rightarrow> error + int" where
  "sum_components [] total_size = Inr total_size"
| "sum_components (c # cs) total_size =
     (if c_parameters c \<noteq> NoParameters then
        (case estimate_model_memory (c_parameters c) of
           Inl e \<Rightarrow> Inl e
         | Inr n \<Rightarrow> sum_components cs (total_size + n))
      else sum_components cs total_size)"

definition GiB :: int where
  "GiB = 1024 * 1024 * 1024"

text \<open>
  \<open>calculate_model_memory\<close>; the argument is \<open>None\<close> when the model is Python's \<open>None\<close>,
  which has neither \<open>parameters\<close> nor \<open>__dict__\<close>.
\<close>

fun calculate_model_memory :: "inst option \<Rightarrow> error + int" where
  "calculate_model_memory None = Inr GiB"
| "calculate_model_memory (Some m) =
     (if i_parameters m \<noteq> NoParameters then estimate_model_memory (i_parameters m)
      else (case i_dict m of
              Some items \<Rightarrow> sum_components (map snd items) 0
            | None \<Rightarrow> Inr GiB))"

subsection \<open>The wrapper\<close>

text \<open>
  \<open>__init__\<close>, given the address of the model and the object found there (both \<open>None\<close>
  for a \<open>None\<close> model). The two calls that can raise are \<open>torch.device\<close> and
  \<open>weakref.ref\<close>.
\<close>

definition init :: "torch_env \<Rightarrow> addr option \<Rightarrow> inst option \<Rightarrow> ModelInfo \<Rightarrow> error + wrapper" where
  "init torch model_addr mo mi =
     (let device_name =
            (if info_device mi = ''auto''
             then (if cuda_is_available torch then ''cuda'' else ''cpu'')
             else info_device mi)
      in case (if device_name = ''cuda''
               then Some (''cuda'',
                          Some (if cuda_is_available torch then cuda_current_device torch else 0))
               else torch_device torch device_name) of
           None \<Rightarrow> Inl DeviceError
         | Some (device_type, device_index) \<Rightarrow>
             if (case mo of Some m \<Rightarrow> \<not> i_weakrefable m | None \<Rightarrow> False) then Inl WeakrefError
             else Inr \<lparr>model = model_addr, model_info = mi,
                       load_device = DTorch device_type device_index,
                       current_device = DStr (info_device mi),
                       memory_size = info_memory_size mi,
                       device = DTorch device_type device_index,
                       is_loaded_on_gpu = (info_device mi \<notin> set [''cpu'', ''offload'']),
                       is_valid_for_reuse = True\<rparr>)"

text \<open>
  The methods below take the wrapper and the instance its \<open>model\<close> field references
  (\<open>None\<close> for a \<open>None\<close> model) and return the result with both, updated.
\<close>

definition loaded_size :: "wrapper \<Rightarrow> int" where
  "loaded_size w = (if is_loaded_on_gpu w then memory_size w else 0)"

definition model_size :: "wrapper \<Rightarrow> int" where
  "model_size w = memory_size w"

definition model_offloaded_memory :: "wrapper \<Rightarrow> int" where
  "model_offloaded_memory w = model_size w - loaded_size w"

definition current_loaded_device :: "wrapper \<Rightarrow> dev" where
  "current_loaded_device w = current_device w"

definition instance_to :: "inst \<Rightarrow> dev \<Rightarrow> error + inst" where
  "instance_to m d =
     (case i_to m of
        Some raises \<Rightarrow> if raises d then Inl TransferError else Inr (m\<lparr>i_device := d\<rparr>)
      | None \<Rightarrow> Inl TransferError)"

definition component_to :: "component \<Rightarrow> dev \<Rightarrow> error + component" where
  "component_to c d =
     (case c_to c of
        Some raises \<Rightarrow> if raises d then Inl TransferError else Inr (c\<lparr>c_device := d\<rparr>)
      | None \<Rightarrow> Inl TransferError)"

text \<open>
  The loop of \<open>partially_unload\<close> over \<open>model.__dict__.items()\<close>: the \<open>try\<close> around each
  value covers the transfer and the estimate, so a value whose estimate raises has been
  moved and adds nothing to \<open>freed_memory\<close>.
\<close>

fun unload_components ::
  "(string \<times> component) list \<Rightarrow> int \<Rightarrow> (string \<times> component) list \<times> int" where
  "unload_components [] freed_memory = ([], freed_memory)"
| "unload_components ((attr_name, attr_value) # rest) freed_memory =
     (if c_to attr_value \<noteq> None \<and> c_parameters attr_value \<noteq> NoParameters then
        (case component_to attr_value (DStr ''cpu'') of
           Inl e \<Rightarrow>
             (let (rest', freed') = unload_components rest freed_memory
              in ((attr_name, attr_value) # rest', freed'))
         | Inr moved \<Rightarrow>
             (case estimate_model_memory (c_parameters moved) of
                Inl e \<Rightarrow>
                  (let (rest', freed') = unload_components rest freed_memory
                   in ((attr_name, moved) # rest', freed'))
              | Inr n \<Rightarrow>
                  (let (rest', freed') = unload_components rest (freed_memory + n)
                   in ((attr_name, moved) # rest', freed'))))
      else
        (let (rest', freed') = unload_components rest freed_memory
         in ((attr_name, attr_value) # rest', freed')))"

text \<open>
  \<open>_clear_cuda_graphs\<close> only looks for \<open>decode_graph_runners\<close> and prints what it finds,
  inside its own \<open>try\<close>; it changes nothing and raises nothing, so it has no counterpart
  here. \<open>partially_unload\<close> ignores both of its arguments.
\<close>

definition partially_unload ::
  "dev \<Rightarrow> int \<Rightarrow> wrapper \<Rightarrow> inst option \<Rightarrow> int \<times> wrapper \<times> inst option" where
  "partially_unload dv memory_to_free w mo =
     (if \<not> is_loaded_on_gpu w then (0, w, mo)
      else
        (case mo of
           None \<Rightarrow> (0, w, mo)
         | Some m \<Rightarrow>
             if i_to m \<noteq> None then
               (case instance_to m (DStr ''cpu'') of
                  Inr m' \<Rightarrow>
                    (memory_size w,
                     w\<lparr>current_device := DStr ''cpu'', is_loaded_on_gpu := False\<rparr>, Some m')
                | Inl e \<Rightarrow>
                    (memory_size w,
                     w\<lparr>current_device := DStr ''cpu'', is_loaded_on_gpu := False\<rparr>, Some m))
             else
               (case i_dict m of
                  Some items \<Rightarrow>
                    (let (items', freed_memory) = unload_components items 0
                     in (freed_memory,
                         (if freed_memory > 0
                          then w\<lparr>current_device := DStr ''cpu'', is_loaded_on_gpu := False\<rparr>
                          else w),
                         Some (m\<lparr>i_dict := Some items'\<rparr>)))
                | None \<Rightarrow> (0, w, mo))))"

definition model_unload ::
  "int option \<Rightarrow> wrapper \<Rightarrow> inst option \<Rightarrow> bool \<times> wrapper \<times> inst option" where
  "model_unload memory_to_free w mo =
     (case memory_to_free of
        Some n \<Rightarrow>
          if n < loaded_size w then
            (let (freed, w', mo') = partially_unload (DStr ''cpu'') n w mo
             in (freed \<ge> n, w', mo'))
          else
            (let (freed, w', mo') = partially_unload (DStr ''cpu'') (memory_size w) w mo
             in (freed > 0, w', mo'))
      | None \<Rightarrow>
          (let (freed, w', mo') = partially_unload (DStr ''cpu'') (memory_size w) w mo
           in (freed > 0, w', mo')))"

text \<open>The loop of \<open>model_load\<close> over \<open>model.__dict__.items()\<close>; failures are passed over.\<close>

fun load_components :: "dev \<Rightarrow> (string \<times> component) list \<Rightarrow> (string \<times> component) list" where
  "load_components target [] = []"
| "load_components target ((attr_name, attr_value) # rest) =
     (if c_to attr_value \<noteq> None \<and> c_parameters attr_value \<noteq> NoParameters then
        (case component_to attr_value target of
           Inl e \<Rightarrow> (attr_name, attr_value) # load_components target rest
         | Inr moved \<Rightarrow> (attr_name, moved) # load_components target rest)
      else (attr_name, attr_value) # load_components target rest)"

text \<open>
  \<open>device or self.load_device\<close>: \<open>None\<close> and the empty string are falsy, every other
  device is kept.
\<close>

definition device_or :: "dev option \<Rightarrow> dev \<Rightarrow> dev" where
  "device_or dv dflt =
     (case dv of None \<Rightarrow> dflt | Some d \<Rightarrow> if d = DStr [] then dflt else d)"

definition model_load :: "dev option \<Rightarrow> wrapper \<Rightarrow> inst option \<Rightarrow> wrapper \<times> inst option" where
  "model_load dv w mo =
     (if is_loaded_on_gpu w then (w, mo)
      else
        (let target_device = device_or dv (load_device w) in
         case mo of
           None \<Rightarrow> (w, mo)
         | Some m \<Rightarrow>
             if i_to m \<noteq> None then
               (case instance_to m target_device of
                  Inr m' \<Rightarrow>
                    (w\<lparr>current_device := target_device, is_loaded_on_gpu := True\<rparr>, Some m')
                | Inl e \<Rightarrow> (w, mo))
             else
               (case i_dict m of
                  Some items \<Rightarrow>
                    (w\<lparr>current_device := target_device, is_loaded_on_gpu := True\<rparr>,
                     Some (m\<lparr>i_dict := Some (load_components target_device items)\<rparr>))
                | None \<Rightarrow> (w, mo))))"

text \<open>
  The class body defines \<open>is_clone\<close> twice. \<open>is_clone_first\<close> is the definition at line
  341, whose argument is any Python object (\<open>None\<close> here when it is not a wrapper);
  \<open>is_clone\<close> is the definition at line 380, which replaces the first one when the class
  body is executed and is the method every caller gets.
\<close>

definition is_clone_first :: "wrapper \<Rightarrow> wrapper option \<Rightarrow> bool" where
  "is_clone_first self other =
     (case other of
        None \<Rightarrow> False
      | Some w \<Rightarrow> model_type (model_info self) = model_type (model_info w) \<and>
                  engine (model_info self) = engine (model_info w))"

definition is_clone :: "wrapper \<Rightarrow> wrapper option \<Rightarrow> bool" where
  "is_clone self other = False"

text \<open>
  \<open>detach\<close>; \<open>now\<close> is the value \<open>time.time()\<close> returns inside
  \<open>_clear_node_engine_caches\<close>. The result carries the new value of
  \<open>_global_cache_invalidation_flag\<close>.
\<close>

definition detach :: "real \<Rightarrow> wrapper \<Rightarrow> inst option \<Rightarrow> real \<times> wrapper \<times> inst option" where
  "detach now w mo =
     (let (freed, w', mo') = partially_unload (DStr ''cpu'') (memory_size w) w mo
      in (now, w'\<lparr>is_valid_for_reuse := False\<rparr>, mo'))"

definition partially_load ::
  "dev \<Rightarrow> int \<Rightarrow> wrapper \<Rightarrow> inst option \<Rightarrow> int \<times> wrapper \<times> inst option" where
  "partially_load dv extra_memory w mo =
     (if dv \<noteq> DStr ''cpu'' \<and> \<not> is_loaded_on_gpu w then
        (let (w', mo') = model_load (Some dv) w mo in (memory_size w', w', mo'))
      else (0, w, mo))"

subsection \<open>The store\<close>

text \<open>
  \<open>wrappers\<close> and \<open>models\<close> hold the objects at their addresses, \<open>next_wrapper\<close> and
  \<open>next_model\<close> are the addresses the next constructed objects get, \<open>model_cache\<close> is
  the manager's dictionary in insertion order, and \<open>factory_calls\<close> counts the calls of
  model factories (a counter of the model, not a variable of the module).
\<close>

record world =
  wrappers :: "addr \<Rightarrow> wrapper"
  models :: "addr \<Rightarrow> inst"
  next_wrapper :: addr
  next_model :: addr
  model_cache :: "(string \<times> addr) list"
  global_cache_invalidation_flag :: real
  factory_calls :: nat

definition model_of :: "world \<Rightarrow> addr \<Rightarrow> inst option" where
  "model_of s a = map_option (models s) (model (wrappers s a))"

definition store :: "addr \<Rightarrow> wrapper \<Rightarrow> inst option \<Rightarrow> world \<Rightarrow> world" where
  "store a w mo s =
     s\<lparr>wrappers := (wrappers s)(a := w),
       models := (case model (wrappers s a) of
                    Some ma \<Rightarrow> (case mo of Some m \<Rightarrow> (models s)(ma := m) | None \<Rightarrow> models s)
                  | None \<Rightarrow> models s)\<rparr>"

text \<open>
  A call of one of the wrapper's methods on the object at an address, as the manager and
  the host make them. \<open>CallDetach\<close> carries the clock reading of that call.
\<close>

datatype handle_call =
    CallLoadedSize
  | CallModelSize
  | CallModelOffloadedMemory
  | CallCurrentLoadedDevice
  | CallPartiallyUnload dev int
  | CallModelUnload "int option"
  | CallModelLoad "dev option"
  | CallIsClone "addr option"
  | CallDetach real
  | CallPartiallyLoad dev int

fun call_handle :: "addr \<Rightarrow> handle_call \<Rightarrow> world \<Rightarrow> world" where
  "call_handle a CallLoadedSize s = s"
| "call_handle a CallModelSize s = s"
| "call_handle a CallModelOffloadedMemory s = s"
| "call_handle a CallCurrentLoadedDevice s = s"
| "call_handle a (CallPartiallyUnload d n) s =
     (let (freed, w', mo') = partially_unload d n (wrappers s a) (model_of s a)
      in store a w' mo' s)"
| "call_handle a (CallModelUnload n) s =
     (let (success, w', mo') = model_unload n (wrappers s a) (model_of s a)
      in store a w' mo' s)"
| "call_handle a (CallModelLoad d) s =
     (let (w', mo') = model_load d (wrappers s a) (model_of s a)
      in store a w' mo' s)"
| "call_handle a (CallIsClone other) s = s"
| "call_handle a (CallDetach now) s =
     (let (flag, w', mo') = detach now (wrappers s a) (model_of s a)
      in (store a w' mo' s)\<lparr>global_cache_invalidation_flag := flag\<rparr>)"
| "call_handle a (CallPartiallyLoad d n) s =
     (let (used, w', mo') = partially_load d n (wrappers s a) (model_of s a)
      in store a w' mo' s)"

definition is_engine_cache_valid :: "world \<Rightarrow> real \<Rightarrow> bool" where
  "is_engine_cache_valid s cache_timestamp = (cache_timestamp > global_cache_invalidation_flag s)"

subsection \<open>The manager\<close>

definition shadow_key :: "string \<Rightarrow> string" where
  "shadow_key model_key = ''_shadow_'' @ model_key"

definition get_model :: "string \<Rightarrow> world \<Rightarrow> addr option" where
  "get_model model_key s = map_of (model_cache s) model_key"

text \<open>
  \<open>remove_model\<close>. The host's list \<open>current_loaded_models\<close> is not part of the state:
  the manager only removes the wrapper from it, inside a \<open>try\<close>.
\<close>

definition remove_model :: "string \<Rightarrow> world \<Rightarrow> bool \<times> world" where
  "remove_model model_key s =
     (case map_of (model_cache s) model_key of
        None \<Rightarrow> (False, s)
      | Some a \<Rightarrow>
          if engine (model_info (wrappers s a)) = ''higgs_audio'' then
            (True, s\<lparr>model_cache :=
                       AList.update (shadow_key model_key) a
                         (AList.delete model_key (model_cache s))\<rparr>)
          else
            (True, call_handle a (CallModelUnload None)
                     (s\<lparr>model_cache := AList.delete model_key (model_cache s)\<rparr>)))"

fun remove_models :: "string list \<Rightarrow> world \<Rightarrow> world" where
  "remove_models [] s = s"
| "remove_models (key # keys) s = remove_models keys (snd (remove_model key s))"

text \<open>A filter of \<open>clear_cache\<close> rejects a wrapper when it is truthy and differs.\<close>

definition filter_rejects :: "string option \<Rightarrow> string \<Rightarrow> bool" where
  "filter_rejects f v = (case f of None \<Rightarrow> False | Some x \<Rightarrow> x \<noteq> [] \<and> v \<noteq> x)"

definition keys_to_remove :: "string option \<Rightarrow> string option \<Rightarrow> world \<Rightarrow> string list" where
  "keys_to_remove ty en s =
     map fst (filter (\<lambda>(key, a). \<not> filter_rejects ty (model_type (model_info (wrappers s a))) \<and>
                                 \<not> filter_rejects en (engine (model_info (wrappers s a))))
                (model_cache s))"

definition clear_cache :: "string option \<Rightarrow> string option \<Rightarrow> world \<Rightarrow> world" where
  "clear_cache ty en s = remove_models (keys_to_remove ty en s) s"

text \<open>
  The host: whether \<open>COMFYUI_AVAILABLE and model_management is not None\<close> holds, and what
  \<open>model_management.free_memory\<close> does when the manager calls it (\<open>None\<close> when
  \<open>free_memory\<close> or \<open>get_torch_device\<close> is missing): the calls it makes on wrappers, and
  whether it raises after them.
\<close>

record host_env =
  comfyui_available :: bool
  free_memory :: "((addr \<times> handle_call) list \<times> bool) option"

fun host_calls :: "(addr \<times> handle_call) list \<Rightarrow> world \<Rightarrow> world" where
  "host_calls [] s = s"
| "host_calls ((a, c) # rest) s = host_calls rest (call_handle a c s)"

definition models_to_clear :: "string \<Rightarrow> world \<Rightarrow> string list" where
  "models_to_clear en s =
     map fst (filter (\<lambda>(cache_key, a). engine (model_info (wrappers s a)) \<noteq> en \<and>
                                       model_type (model_info (wrappers s a)) = ''tts'')
                (model_cache s))"

definition clear_other_engines :: "string \<Rightarrow> string \<Rightarrow> world \<Rightarrow> world" where
  "clear_other_engines ty en s =
     (if ty = ''tts'' \<and> en \<noteq> [] then remove_models (models_to_clear en s) s else s)"

text \<open>Lines 545 to 577 of \<open>load_model\<close>: one \<open>try\<close> around the host call and the clearing.\<close>

definition free_before_load :: "host_env \<Rightarrow> string \<Rightarrow> string \<Rightarrow> string \<Rightarrow> world \<Rightarrow> world" where
  "free_before_load host ty en dv s =
     (if comfyui_available host \<and> dv \<noteq> ''cpu'' then
        (case free_memory host of
           Some (calls, raises) \<Rightarrow>
             (if raises then host_calls calls s
              else clear_other_engines ty en (host_calls calls s))
         | None \<Rightarrow> clear_other_engines ty en s)
      else s)"

text \<open>
  Lines 579 to 639: the factory is called with the device and returns an instance,
  \<open>None\<close>, or raises. Registering the wrapper with the host changes the host only.
\<close>

definition create_model ::
  "torch_env \<Rightarrow> (string \<Rightarrow> error + inst option) \<Rightarrow> string \<Rightarrow> string \<Rightarrow> string \<Rightarrow> string \<Rightarrow>
   world \<Rightarrow> (error + addr) \<times> world" where
  "create_model torch model_factory_func model_key ty en dv s =
     (let s1 = s\<lparr>factory_calls := Suc (factory_calls s)\<rparr> in
      case model_factory_func dv of
        Inl e \<Rightarrow> (Inl e, s1)
      | Inr mo \<Rightarrow>
          (let model_addr = (case mo of Some m \<Rightarrow> Some (next_model s1) | None \<Rightarrow> None);
               s2 = (case mo of
                       Some m \<Rightarrow> s1\<lparr>models := (models s1)(next_model s1 := m),
                                     next_model := Suc (next_model s1)\<rparr>
                     | None \<Rightarrow> s1)
           in case calculate_model_memory mo of
                Inl e \<Rightarrow> (Inl e, s2)
              | Inr sz \<Rightarrow>
                  (case init torch model_addr mo
                          \<lparr>info_model = model_addr, model_type = ty, engine = en,
                           info_device = dv, info_memory_size = sz,
                           info_load_device = dv\<rparr> of
                     Inl e \<Rightarrow> (Inl e, s2)
                   | Inr w \<Rightarrow>
                       (Inr (next_wrapper s2),
                        s2\<lparr>wrappers := (wrappers s2)(next_wrapper s2 := w),
                           next_wrapper := Suc (next_wrapper s2),
                           model_cache :=
                             AList.update model_key (next_wrapper s2) (model_cache s2)\<rparr>))))"

definition set_valid_for_reuse :: "addr \<Rightarrow> bool \<Rightarrow> world \<Rightarrow> world" where
  "set_valid_for_reuse a b s =
     s\<lparr>wrappers := (wrappers s)(a := (wrappers s a)\<lparr>is_valid_for_reuse := b\<rparr>)\<rparr>"

text \<open>
  \<open>wrapper.model.engine.cuda_graphs_initialized = False\<close>, guarded by the two
  \<open>hasattr\<close> tests. The assignment raises when the attribute cannot be assigned.
\<close>

definition reset_cuda_graph_state :: "addr \<Rightarrow> world \<Rightarrow> error + world" where
  "reset_cuda_graph_state a s =
     (case model (wrappers s a) of
        None \<Rightarrow> Inr s
      | Some ma \<Rightarrow>
          (case i_cuda_graphs_initialized (models s ma) of
             None \<Rightarrow> Inr s
           | Some b \<Rightarrow>
               if i_flag_assignable (models s ma)
               then Inr (s\<lparr>models := (models s)
                            (ma := (models s ma)\<lparr>i_cuda_graphs_initialized := Some False\<rparr>)\<rparr>)
               else Inl AssignError))"

text \<open>
  The body of the \<open>try\<close> of lines 497 to 508 and of lines 527 to 538: the reset, then
  \<open>model_load\<close>, which raises nothing, then the mark. An error of the reset leaves the
  state as it was and is what the \<open>except\<close> of \<open>load_model\<close> catches.
\<close>

definition reinitialize_in_place :: "addr \<Rightarrow> string \<Rightarrow> world \<Rightarrow> error + world" where
  "reinitialize_in_place a dv s =
     (case reset_cuda_graph_state a s of
        Inl e \<Rightarrow> Inl e
      | Inr s1 \<Rightarrow>
          Inr (set_valid_for_reuse a True (call_handle a (CallModelLoad (Some (DStr dv))) s1)))"

text \<open>
  Lines 472 to 484: the wrapper is popped from its shadow key, its graph state is reset,
  and it goes back under the key, valid. No \<open>try\<close> surrounds the reset here: when it
  raises, \<open>load_model\<close> raises, and the wrapper has left the dictionary.
\<close>

definition resurrect :: "addr \<Rightarrow> string \<Rightarrow> world \<Rightarrow> (error + addr) \<times> world" where
  "resurrect a model_key s =
     (let s1 = s\<lparr>model_cache := AList.delete (shadow_key model_key) (model_cache s)\<rparr> in
      case reset_cuda_graph_state a s1 of
        Inl e \<Rightarrow> (Inl e, s1)
      | Inr s2 \<Rightarrow>
          (Inr a,
           set_valid_for_reuse a True
             (s2\<lparr>model_cache := AList.update model_key a (model_cache s2)\<rparr>)))"

text \<open>
  \<open>load_model\<close>. For a Higgs Audio key whose cached wrapper is invalid, or with
  \<open>force_reload\<close>, the in-place reinitialisation is tried first; when it raises, the
  \<open>except\<close> falls through to \<open>remove_model\<close> and to the creation of a new model, as
  for the other engines.
\<close>

definition load_model ::
  "torch_env \<Rightarrow> host_env \<Rightarrow> (string \<Rightarrow> error + inst option) \<Rightarrow> string \<Rightarrow> string \<Rightarrow> string \<Rightarrow>
   string \<Rightarrow> bool \<Rightarrow> world \<Rightarrow> (error + addr) \<times> world" where
  "load_model torch host model_factory_func model_key ty en dv force_reload s =
     (case (if en = ''higgs_audio'' then map_of (model_cache s) (shadow_key model_key)
            else None) of
        Some a \<Rightarrow> resurrect a model_key s
      | None \<Rightarrow>
        (case map_of (model_cache s) model_key of
           Some a \<Rightarrow>
             if \<not> force_reload then
               (if \<not> is_valid_for_reuse (wrappers s a) then
                  (if en = ''higgs_audio'' then
                     (case reinitialize_in_place a dv s of
                        Inr s' \<Rightarrow> (Inr a, s')
                      | Inl e \<Rightarrow>
                          create_model torch model_factory_func model_key ty en dv
                            (free_before_load host ty en dv (snd (remove_model model_key s))))
                   else create_model torch model_factory_func model_key ty en dv
                          (free_before_load host ty en dv (snd (remove_model model_key s))))
                else
                  (Inr a,
                   if current_device (wrappers s a) \<noteq> DStr dv \<and> dv \<noteq> ''auto''
                   then call_handle a (CallModelLoad (Some (DStr dv))) s
                   else s))
             else
               (if en = ''higgs_audio'' then
                  (case reinitialize_in_place a dv s of
                     Inr s' \<Rightarrow> (Inr a, s')
                   | Inl e \<Rightarrow>
                       create_model torch model_factory_func model_key ty en dv
                         (free_before_load host ty en dv (snd (remove_model model_key s))))
                else create_model torch model_factory_func model_key ty en dv
                       (free_before_load host ty en dv (snd (remove_model model_key s))))
         | None \<Rightarrow>
             create_model torch model_factory_func model_key ty en dv
               (free_before_load host ty en dv s)))"

text \<open>\<open>get_stats\<close>.\<close>

record stats =
  total_models :: nat
  total_memory_mb :: int
  by_type :: "(string \<times> nat) list"
  by_engine :: "(string \<times> nat) list"
  comfyui_integration :: bool

definition count_up :: "string \<Rightarrow> (string \<times> nat) list \<Rightarrow> (string \<times> nat) list" where
  "count_up k d = AList.update k ((case map_of d k of None \<Rightarrow> 0 | Some n \<Rightarrow> n) + 1) d"

definition cache_values :: "world \<Rightarrow> wrapper list" where
  "cache_values s = map (\<lambda>(key, a). wrappers s a) (model_cache s)"

definition get_stats :: "bool \<Rightarrow> world \<Rightarrow> stats" where
  "get_stats comfy s =
     (let total_memory = sum_list (map loaded_size (cache_values s))
      in \<lparr>total_models = length (model_cache s),
          total_memory_mb = total_memory div 1024 div 1024,
          by_type = fold (\<lambda>w d. count_up (model_type (model_info w)) d) (cache_values s) [],
          by_engine = fold (\<lambda>w d. count_up (engine (model_info w)) d) (cache_values s) [],
          comfyui_integration = comfy\<rparr>)"

subsection \<open>Runs\<close>

text \<open>
  The calls a client or the host can make, and the state a sequence of them leaves. The
  manager starts with an empty dictionary and the flag at \<open>0.0\<close>.
\<close>

datatype op =
    LoadModel torch_env host_env "string \<Rightarrow> error + inst option" string string string string bool
  | RemoveModel string
  | ClearCache "string option" "string option"
  | GetStats
  | GetModel string
  | HandleCall addr handle_call

fun step :: "op \<Rightarrow> world \<Rightarrow> world" where
  "step (LoadModel torch host f model_key ty en dv force_reload) s =
     snd (load_model torch host f model_key ty en dv force_reload s)"
| "step (RemoveModel model_key) s = snd (remove_model model_key s)"
| "step (ClearCache ty en) s = clear_cache ty en s"
| "step GetStats s = s"
| "step (GetModel model_key) s = s"
| "step (HandleCall a c) s = call_handle a c s"

fun run :: "op list \<Rightarrow> world \<Rightarrow> world" where
  "run [] s = s"
| "run (x # xs) s = run xs (step x s)"

definition blank_wrapper :: wrapper where
  "blank_wrapper =
     \<lparr>model = None,
      model_info = \<lparr>info_model = None, model_type = [], engine = [], info_device = [],
                    info_memory_size = 0, info_load_device = []\<rparr>,
      load_device = DStr [], current_device = DStr [], memory_size = 0, device = DStr [],
      is_loaded_on_gpu = False, is_valid_for_reuse = False\<rparr>"

definition blank_inst :: inst where
  "blank_inst =
     \<lparr>i_parameters = NoParameters, i_to = None, i_dict = None,
      i_cuda_graphs_initialized = None, i_flag_assignable = True, i_weakrefable = False,
      i_device = DStr []\<rparr>"

text \<open>The state at import: nothing allocated, \<open>tts_model_manager\<close> empty.\<close>

definition start :: world where
  "start =
     \<lparr>wrappers = (\<lambda>a. blank_wrapper), models = (\<lambda>a. blank_inst), next_wrapper = 0,
      next_model = 0, model_cache = [], global_cache_invalidation_flag = 0,
      factory_calls = 0\<rparr>"

subsection \<open>Notions used in the statements\<close>

text \<open>
  \<open>kept w w'\<close>: the later state \<open>w'\<close> of a wrapper has the instance, the \<open>ModelInfo\<close> and
  the \<open>_memory_size\<close> of the earlier one. \<open>grows s s'\<close>: every wrapper constructed in
  \<open>s\<close> is still there in \<open>s'\<close>, in that sense.
\<close>

definition kept :: "wrapper \<Rightarrow> wrapper \<Rightarrow> bool" where
  "kept w w' =
     (model w' = model w \<and> model_info w' = model_info w \<and> memory_size w' = memory_size w)"

definition grows :: "world \<Rightarrow> world \<Rightarrow> bool" where
  "grows s s' =
     (next_wrapper s \<le> next_wrapper s' \<and>
      (\<forall>b < next_wrapper s. kept (wrappers s b) (wrappers s' b)))"

text \<open>The clock readings that the \<open>detach\<close> calls of an operation take, in order.\<close>

fun detach_readings :: "(addr \<times> handle_call) list \<Rightarrow> real list" where
  "detach_readings [] = []"
| "detach_readings ((a, CallDetach now) # rest) = now # detach_readings rest"
| "detach_readings ((a, c) # rest) = detach_readings rest"

fun clock_readings :: "op \<Rightarrow> real list" where
  "clock_readings (HandleCall a (CallDetach now)) = [now]"
| "clock_readings (LoadModel torch host f model_key ty en dv force_reload) =
     (case free_memory host of Some (calls, raises) \<Rightarrow> detach_readings calls | None \<Rightarrow> [])"
| "clock_readings x = []"

abbreviation flag :: "world \<Rightarrow> real" where
  "flag \<equiv> global_cache_invalidation_flag"

text \<open>
  An instance with neither \<open>parameters\<close> nor \<open>__dict__\<close>, and an instance on which
  \<open>calculate_model_memory\<close> reaches an enumeration that raises.
\<close>

definition exposes_nothing :: "inst option \<Rightarrow> bool" where
  "exposes_nothing mo =
     (case mo of None \<Rightarrow> True | Some m \<Rightarrow> i_parameters m = NoParameters \<and> i_dict m = None)"

definition enumeration_raises :: "inst option \<Rightarrow> bool" where
  "enumeration_raises mo =
     (case mo of
        None \<Rightarrow> False
      | Some m \<Rightarrow>
          i_parameters m = ParametersRaise \<or>
          (i_parameters m = NoParameters \<and>
           (case i_dict m of
              None \<Rightarrow> False
            | Some items \<Rightarrow> ParametersRaise \<in> set (map (\<lambda>(n, c). c_parameters c) items))))"

text \<open>
  The result of the estimator when no enumeration raises, written as sums: the sum of
  \<open>nelement() * element_size()\<close> over the parameters of the instance; for an instance
  without \<open>parameters\<close>, that sum over the values of its \<open>__dict__\<close> that have
  parameters, which is 0 when none has; and 1 GiB for an instance with neither
  \<open>parameters\<close> nor \<open>__dict__\<close>.
\<close>

definition buffer_bytes :: "params_attr \<Rightarrow> int" where
  "buffer_bytes p =
     (case p of Parameters ps \<Rightarrow> sum_list (map (\<lambda>(n, e). n * e) ps) | _ \<Rightarrow> 0)"

definition expected_size :: "inst option \<Rightarrow> int" where
  "expected_size mo =
     (case mo of
        None \<Rightarrow> GiB
      | Some m \<Rightarrow>
          if i_parameters m \<noteq> NoParameters then buffer_bytes (i_parameters m)
          else (case i_dict m of
                  None \<Rightarrow> GiB
                | Some items \<Rightarrow> sum_list (map (\<lambda>(n, c). buffer_bytes (c_parameters c)) items)))"

text \<open>
  \<open>flag_ok m\<close>: the reset of \<open>cuda_graphs_initialized\<close> does not raise on the instance,
  which has no such attribute or one that can be assigned. \<open>resettable s a\<close>: so for the
  instance of the wrapper at \<open>a\<close>. \<open>flags_ok s\<close>: so for every instance.
  \<open>assignable_flags x\<close>: the factory of a \<open>load_model\<close> builds such an instance.
\<close>

definition flag_ok :: "inst \<Rightarrow> bool" where
  "flag_ok m = (i_cuda_graphs_initialized m = None \<or> i_flag_assignable m)"

definition resettable :: "world \<Rightarrow> addr \<Rightarrow> bool" where
  "resettable s a = (case model (wrappers s a) of None \<Rightarrow> True | Some ma \<Rightarrow> flag_ok (models s ma))"

definition flags_ok :: "world \<Rightarrow> bool" where
  "flags_ok s = (\<forall>ma. flag_ok (models s ma))"

fun assignable_flags :: "op \<Rightarrow> bool" where
  "assignable_flags (LoadModel torch host f model_key ty en dv force_reload) =
     (case f dv of Inr (Some m) \<Rightarrow> flag_ok m | _ \<Rightarrow> True)"
| "assignable_flags x = True"

text \<open>The keys of a Python dictionary are distinct.\<close>

definition dict_ok :: "world \<Rightarrow> bool" where
  "dict_ok s = distinct (map fst (model_cache s))"

text \<open>\<open>d.get(k)\<close> for a dictionary of counts that holds a key once it has counted it.\<close>

definition count_opt :: "nat \<Rightarrow> nat option" where
  "count_opt n = (if n = 0 then None else Some n)"

text \<open>
  \<open>prefixed k\<close>: the key begins with \<open>_shadow_\<close>, as every shadow key does.
  \<open>same_engine E x\<close>: a \<open>load_model\<close> passes the engine \<open>E\<close> assigns to its key.
  \<open>plain_key x\<close>: a \<open>load_model\<close> passes a key that is not prefixed. \<open>cache_inv\<close> is the
  invariant of the dictionary under such calls: every address in it is of a constructed
  wrapper; a wrapper under a prefixed key is a Higgs Audio wrapper; a wrapper under any
  other key has the engine of its key, and the shadow key of that key is free; and only a
  key whose engine is \<open>higgs_audio\<close> has its shadow key taken.
\<close>

definition prefixed :: "string \<Rightarrow> bool" where
  "prefixed k = (take 8 k = ''_shadow_'')"

fun same_engine :: "(string \<Rightarrow> string) \<Rightarrow> op \<Rightarrow> bool" where
  "same_engine E (LoadModel torch host f model_key ty en dv force_reload) = (en = E model_key)"
| "same_engine E x = True"

fun plain_key :: "op \<Rightarrow> bool" where
  "plain_key (LoadModel torch host f model_key ty en dv force_reload) = (\<not> prefixed model_key)"
| "plain_key x = True"

definition cache_inv :: "(string \<Rightarrow> string) \<Rightarrow> world \<Rightarrow> bool" where
  "cache_inv E s =
     (dict_ok s \<and>
      (\<forall>k a. map_of (model_cache s) k = Some a \<longrightarrow>
           a < next_wrapper s \<and>
           (if prefixed k then engine (model_info (wrappers s a)) = ''higgs_audio''
            else engine (model_info (wrappers s a)) = E k \<and>
                 map_of (model_cache s) (shadow_key k) = None)) \<and>
      (\<forall>j. \<not> prefixed j \<and> map_of (model_cache s) (shadow_key j) \<noteq> None \<longrightarrow>
           E j = ''higgs_audio''))"



subsection \<open>Example objects\<close>

definition torch0 :: torch_env where
  "torch0 = \<lparr>cuda_is_available = True, cuda_current_device = 0,
             torch_device =
               (\<lambda>d. if d = ''cpu'' then Some (''cpu'', None)
                    else if d = ''cuda:0'' then Some (''cuda'', Some 0) else None)\<rparr>"

definition no_host :: host_env where
  "no_host = \<lparr>comfyui_available = False, free_memory = None\<rparr>"

text \<open>A module of one parameter tensor of 1048576 four-byte elements, 4 MiB.\<close>

definition small_module :: inst where
  "small_module =
     \<lparr>i_parameters = Parameters [(1048576, 4)], i_to = Some (\<lambda>d. False), i_dict = None,
      i_cuda_graphs_initialized = Some True, i_flag_assignable = True, i_weakrefable = True,
      i_device = DStr ''cuda''\<rparr>"

definition small_factory :: "string \<Rightarrow> error + inst option" where
  "small_factory dv = Inr (Some small_module)"

text \<open>The same module with \<open>cuda_graphs_initialized\<close> as a read-only property.\<close>

definition frozen_module :: inst where
  "frozen_module = small_module\<lparr>i_flag_assignable := False\<rparr>"

definition frozen_factory :: "string \<Rightarrow> error + inst option" where
  "frozen_factory dv = Inr (Some frozen_module)"

definition failing_module :: inst where
  "failing_module = small_module\<lparr>i_to := Some (\<lambda>d. True)\<rparr>"

text \<open>An object with attributes, none of which has parameters, and one whose \<open>parameters\<close> raises.\<close>

definition plain_object :: inst where
  "plain_object =
     \<lparr>i_parameters = NoParameters, i_to = None,
      i_dict = Some [(''config'', \<lparr>c_parameters = NoParameters, c_to = None,
                                   c_device = DStr ''cpu''\<rparr>)],
      i_cuda_graphs_initialized = None, i_flag_assignable = True, i_weakrefable = True,
      i_device = DStr ''cpu''\<rparr>"

definition broken_object :: inst where
  "broken_object =
     \<lparr>i_parameters = ParametersRaise, i_to = None, i_dict = Some [],
      i_cuda_graphs_initialized = None, i_flag_assignable = True, i_weakrefable = True,
      i_device = DStr ''cpu''\<rparr>"

definition chatterbox_info :: ModelInfo where
  "chatterbox_info =
     \<lparr>info_model = Some 0, model_type = ''tts'', engine = ''chatterbox'',
      info_device = ''cuda'', info_memory_size = 4194304, info_load_device = ''cuda''\<rparr>"

definition chatterbox_wrapper :: wrapper where
  "chatterbox_wrapper =
     \<lparr>model = Some 0, model_info = chatterbox_info,
      load_device = DTorch ''cuda'' (Some 0), current_device = DStr ''cuda'',
      memory_size = 4194304, device = DTorch ''cuda'' (Some 0),
      is_loaded_on_gpu = True, is_valid_for_reuse = True\<rparr>"


definition quarantined_state :: world where
  "quarantined_state =
     run [LoadModel torch0 no_host small_factory ''k'' ''tts'' ''higgs_audio'' ''cuda'' False,
          RemoveModel ''k''] start"

text \<open>
  Runs of the manager: a client that loads under a key and under the shadow key of that
  key; a Higgs Audio model cleared twice, loaded again and removed; a Higgs Audio model
  removed and loaded again; and the state with two Higgs Audio wrappers of one key, of
  kinds \<open>vc\<close> and \<open>tts\<close>, that the first four calls of the last but one run reach when
  the kinds differ.
\<close>

definition colliding_keys_run :: "op list" where
  "colliding_keys_run =
     [LoadModel torch0 no_host small_factory ''m'' ''vc'' ''chatterbox'' ''cpu'' False,
      LoadModel torch0 no_host small_factory ''_shadow_m'' ''vc'' ''chatterbox'' ''cpu'' False]"

definition twice_cleared_run :: "op list" where
  "twice_cleared_run =
     [LoadModel torch0 no_host small_factory ''k'' ''tts'' ''higgs_audio'' ''cuda'' False,
      ClearCache None None, ClearCache None None,
      LoadModel torch0 no_host small_factory ''k'' ''tts'' ''higgs_audio'' ''cuda'' False,
      RemoveModel ''k'']"

definition resurrecting_run :: "op list" where
  "resurrecting_run =
     [LoadModel torch0 no_host small_factory ''k'' ''tts'' ''higgs_audio'' ''cuda'' False,
      RemoveModel ''k'',
      LoadModel torch0 no_host small_factory ''k'' ''tts'' ''higgs_audio'' ''cuda'' False]"

definition two_generations_state :: world where
  "two_generations_state =
     run [LoadModel torch0 no_host small_factory ''k'' ''vc'' ''higgs_audio'' ''cpu'' False,
          ClearCache None None, ClearCache None None,
          LoadModel torch0 no_host small_factory ''k'' ''tts'' ''higgs_audio'' ''cpu'' False] start"




definition failed_reinit_run :: "op list" where
  "failed_reinit_run =
     [LoadModel torch0 no_host frozen_factory ''k'' ''tts'' ''higgs_audio'' ''cuda'' False,
      HandleCall 0 (CallDetach 5),
      LoadModel torch0 no_host frozen_factory ''k'' ''tts'' ''higgs_audio'' ''cuda'' False]"
section \<open>Properties\<close>

subsection \<open>What the methods of a wrapper leave unchanged\<close>

lemma kept_refl [simp]: "kept w w" by (simp add: kept_def)
lemma kept_trans: "kept a b \<Longrightarrow> kept b c \<Longrightarrow> kept a c" by (simp add: kept_def)

lemma partially_unload_kept:
  "partially_unload d n w mo = (f, w', mo') \<Longrightarrow> kept w w' \<and> is_valid_for_reuse w' = is_valid_for_reuse w"
  by (auto simp: partially_unload_def kept_def Let_def split: if_splits option.splits sum.splits prod.splits)

lemma model_unload_kept:
  "model_unload n w mo = (b, w', mo') \<Longrightarrow> kept w w' \<and> is_valid_for_reuse w' = is_valid_for_reuse w"
  by (auto simp: model_unload_def Let_def split: if_splits option.splits prod.splits dest: partially_unload_kept)

lemma model_load_kept:
  "model_load d w mo = (w', mo') \<Longrightarrow> kept w w' \<and> is_valid_for_reuse w' = is_valid_for_reuse w"
  by (auto simp: model_load_def kept_def Let_def split: if_splits option.splits sum.splits prod.splits)

lemma detach_kept:
  "detach now w mo = (fl, w', mo') \<Longrightarrow> kept w w' \<and> fl = now"
  by (auto simp: detach_def kept_def Let_def split: prod.splits dest!: partially_unload_kept)

lemma partially_load_kept:
  "partially_load d n w mo = (u, w', mo') \<Longrightarrow> kept w w' \<and> is_valid_for_reuse w' = is_valid_for_reuse w"
  by (auto simp: partially_load_def Let_def split: if_splits prod.splits dest: model_load_kept)

lemma store_fields [simp]:
  "model_cache (store a w mo s) = model_cache s"
  "next_wrapper (store a w mo s) = next_wrapper s"
  "next_model (store a w mo s) = next_model s"
  "factory_calls (store a w mo s) = factory_calls s"
  "global_cache_invalidation_flag (store a w mo s) = global_cache_invalidation_flag s"
  "wrappers (store a w mo s) = (wrappers s)(a := w)"
  by (simp_all add: store_def)

lemma call_handle_fields [simp]:
  "model_cache (call_handle a c s) = model_cache s"
  "next_wrapper (call_handle a c s) = next_wrapper s"
  "next_model (call_handle a c s) = next_model s"
  "factory_calls (call_handle a c s) = factory_calls s"
  by (cases c; simp add: Let_def split: prod.splits)+

lemma call_handle_kept: "kept (wrappers s b) (wrappers (call_handle a c s) b)"
  by (cases c)
     (auto simp: Let_def split: prod.splits
           dest: partially_unload_kept model_unload_kept model_load_kept detach_kept partially_load_kept)

lemma call_handle_other: "b \<noteq> a \<Longrightarrow> wrappers (call_handle a c s) b = wrappers s b"
  by (cases c) (auto simp: Let_def split: prod.splits)

lemma call_handle_flag:
  "global_cache_invalidation_flag (call_handle a c s) =
     (case c of CallDetach now \<Rightarrow> now | _ \<Rightarrow> global_cache_invalidation_flag s)"
  by (cases c) (auto simp: Let_def split: prod.splits dest: detach_kept)


declare call_handle.simps [simp del]

subsection \<open>What the operations of the manager leave unchanged\<close>


lemma call_handle_grows: "grows s (call_handle a c s)"
  by (simp add: grows_def call_handle_kept)

lemma remove_model_fields [simp]:
  "next_wrapper (snd (remove_model k s)) = next_wrapper s"
  "factory_calls (snd (remove_model k s)) = factory_calls s"
  "flag (snd (remove_model k s)) = flag s"
  by (auto simp: remove_model_def call_handle_flag split: option.splits)

lemma remove_model_kept: "kept (wrappers s b) (wrappers (snd (remove_model k s)) b)"
proof (cases "map_of (model_cache s) k")
  case None then show ?thesis by (simp add: remove_model_def)
next
  case (Some a)
  show ?thesis
    using call_handle_kept [of "s\<lparr>model_cache := AList.delete k (model_cache s)\<rparr>" b a "CallModelUnload None"]
    by (simp add: remove_model_def Some)
qed

lemma remove_models_fields [simp]:
  "next_wrapper (remove_models ks s) = next_wrapper s"
  "factory_calls (remove_models ks s) = factory_calls s"
  "flag (remove_models ks s) = flag s"
  by (induction ks arbitrary: s; simp)+


lemma host_calls_fields [simp]:
  "model_cache (host_calls cs s) = model_cache s"
  "next_wrapper (host_calls cs s) = next_wrapper s"
  "factory_calls (host_calls cs s) = factory_calls s"
  by (induction cs arbitrary: s; auto)+


lemma host_calls_flag: "flag (host_calls cs s) \<in> insert (flag s) (set (detach_readings cs))"
proof (induction cs arbitrary: s)
  case Nil show ?case by simp
next
  case (Cons c cs)
  obtain a h where c: "c = (a, h)" by (cases c)
  show ?case using Cons.IH [of "call_handle a h s"]
    by (cases h) (auto simp: c call_handle_flag)
qed

lemma clear_other_engines_fields [simp]:
  "next_wrapper (clear_other_engines ty en s) = next_wrapper s"
  "factory_calls (clear_other_engines ty en s) = factory_calls s"
  "flag (clear_other_engines ty en s) = flag s"
  by (simp_all add: clear_other_engines_def)


lemma free_before_load_fields [simp]:
  "next_wrapper (free_before_load host ty en dv s) = next_wrapper s"
  "factory_calls (free_before_load host ty en dv s) = factory_calls s"
  by (simp_all add: free_before_load_def split: option.splits)


lemma free_before_load_flag:
  "flag (free_before_load host ty en dv s) \<in>
     insert (flag s) (set (case free_memory host of Some (calls, raises) \<Rightarrow> detach_readings calls | None \<Rightarrow> []))"
  using host_calls_flag by (auto simp: free_before_load_def split: option.splits)


lemma create_model_flag [simp]: "flag (snd (create_model torch f k ty en dv s)) = flag s"
  by (auto simp: create_model_def Let_def split: sum.splits option.splits)


lemma set_valid_fields [simp]:
  "model_cache (set_valid_for_reuse a b s) = model_cache s"
  "next_wrapper (set_valid_for_reuse a b s) = next_wrapper s"
  "factory_calls (set_valid_for_reuse a b s) = factory_calls s"
  "flag (set_valid_for_reuse a b s) = flag s"
  "models (set_valid_for_reuse a b s) = models s"
  "wrappers (set_valid_for_reuse a b s) = (wrappers s)(a := (wrappers s a)\<lparr>is_valid_for_reuse := b\<rparr>)"
  by (simp_all add: set_valid_for_reuse_def)

lemma reset_result:
  assumes "reset_cuda_graph_state a s = Inr s'"
  shows "model_cache s' = model_cache s" and "next_wrapper s' = next_wrapper s"
    and "factory_calls s' = factory_calls s" and "flag s' = flag s"
    and "wrappers s' = wrappers s" and "next_model s' = next_model s"
  using assms
  by (auto simp: reset_cuda_graph_state_def split: option.splits if_splits)

lemma reset_error: "reset_cuda_graph_state a s = Inl e \<Longrightarrow> \<not> resettable s a"
  by (auto simp: reset_cuda_graph_state_def resettable_def flag_ok_def
           split: option.splits if_splits)

lemma reset_resettable:
  assumes "resettable s a"
  obtains s' where "reset_cuda_graph_state a s = Inr s'"
  using assms reset_error [of a s] by (cases "reset_cuda_graph_state a s") auto

lemma set_valid_kept: "kept (wrappers s b) (wrappers (set_valid_for_reuse a v s) b)"
  by (simp add: kept_def)

lemma reinitialize_result:
  assumes "reinitialize_in_place a dv s = Inr s'"
  shows "model_cache s' = model_cache s" and "next_wrapper s' = next_wrapper s"
    and "factory_calls s' = factory_calls s" and "flag s' = flag s"
    and "is_valid_for_reuse (wrappers s' a)"
    and "kept (wrappers s b) (wrappers s' b)"
proof -
  obtain s1 where r: "reset_cuda_graph_state a s = Inr s1"
    using assms by (cases "reset_cuda_graph_state a s") (simp_all add: reinitialize_in_place_def)
  have s': "s' = set_valid_for_reuse a True (call_handle a (CallModelLoad (Some (DStr dv))) s1)"
    using assms r by (simp add: reinitialize_in_place_def)
  note f = reset_result [OF r]
  show "model_cache s' = model_cache s" "next_wrapper s' = next_wrapper s"
    "factory_calls s' = factory_calls s" "flag s' = flag s" "is_valid_for_reuse (wrappers s' a)"
    by (simp_all add: s' f call_handle_flag)
  have "kept (wrappers s1 b) (wrappers (call_handle a (CallModelLoad (Some (DStr dv))) s1) b)"
    by (rule call_handle_kept)
  then have "kept (wrappers s b) (wrappers (call_handle a (CallModelLoad (Some (DStr dv))) s1) b)"
    by (simp add: f)
  then show "kept (wrappers s b) (wrappers s' b)"
    unfolding s' by (rule kept_trans [OF _ set_valid_kept])
qed

lemma reinitialize_error: "reinitialize_in_place a dv s = Inl e \<Longrightarrow> \<not> resettable s a"
  using reset_error [of a s]
  by (cases "reset_cuda_graph_state a s") (simp_all add: reinitialize_in_place_def)

lemma resurrect_success_all:
  assumes "resurrect a k s = (Inr b, s')"
  shows "b = a \<and>
      model_cache s' = AList.update k a (AList.delete (shadow_key k) (model_cache s)) \<and>
      wrappers s' = (wrappers s)(a := (wrappers s a)\<lparr>is_valid_for_reuse := True\<rparr>) \<and>
      next_wrapper s' = next_wrapper s \<and> factory_calls s' = factory_calls s \<and> flag s' = flag s"
proof (cases "reset_cuda_graph_state a
                (s\<lparr>model_cache := AList.delete (shadow_key k) (model_cache s)\<rparr>)")
  case (Inl e)
  then show ?thesis using assms by (simp add: resurrect_def)
next
  case (Inr s2)
  note f = reset_result [OF Inr]
  have "b = a"
    and "s' = set_valid_for_reuse a True (s2\<lparr>model_cache := AList.update k a (model_cache s2)\<rparr>)"
    using assms Inr by (auto simp: resurrect_def)
  then show ?thesis using f by simp
qed

lemma resurrect_success:
  assumes "resurrect a k s = (Inr b, s')"
  shows "b = a"
    and "model_cache s' = AList.update k a (AList.delete (shadow_key k) (model_cache s))"
    and "wrappers s' = (wrappers s)(a := (wrappers s a)\<lparr>is_valid_for_reuse := True\<rparr>)"
    and "next_wrapper s' = next_wrapper s" and "factory_calls s' = factory_calls s"
    and "flag s' = flag s"
  using resurrect_success_all [OF assms] by blast+

lemma resurrect_failure:
  assumes "resurrect a k s = (Inl e, s')"
  shows "s' = s\<lparr>model_cache := AList.delete (shadow_key k) (model_cache s)\<rparr>"
  using assms
  by (cases "reset_cuda_graph_state a (s\<lparr>model_cache := AList.delete (shadow_key k) (model_cache s)\<rparr>)")
     (simp_all add: resurrect_def)

lemma resurrect_fields [simp]:
  "next_wrapper (snd (resurrect a k s)) = next_wrapper s"
  "factory_calls (snd (resurrect a k s)) = factory_calls s"
  "flag (snd (resurrect a k s)) = flag s"
proof -
  obtain r s' where p: "resurrect a k s = (r, s')" by (cases "resurrect a k s")
  show "next_wrapper (snd (resurrect a k s)) = next_wrapper s"
    "factory_calls (snd (resurrect a k s)) = factory_calls s"
    "flag (snd (resurrect a k s)) = flag s"
    using resurrect_success(4,5,6) [of a k s _ s'] resurrect_failure [of a k s _ s'] p
    by (cases r; simp)+
qed


subsection \<open>The branches of \<open>load_model\<close>\<close>



lemma reinitialize_grows: "reinitialize_in_place a dv s = Inr s' \<Longrightarrow> grows s s'"
  by (simp add: grows_def reinitialize_result)


lemma load_model_disj:
  "(\<exists>a. load_model torch host f k ty en dv fr s = resurrect a k s \<and>
        en = ''higgs_audio'' \<and> map_of (model_cache s) (shadow_key k) = Some a) \<or>
   (\<exists>a s'. load_model torch host f k ty en dv fr s = (Inr a, s') \<and>
        reinitialize_in_place a dv s = Inr s' \<and>
        en = ''higgs_audio'' \<and> map_of (model_cache s) (shadow_key k) = None \<and>
        map_of (model_cache s) k = Some a) \<or>
   (\<exists>a. load_model torch host f k ty en dv fr s =
          (Inr a, if current_device (wrappers s a) \<noteq> DStr dv \<and> dv \<noteq> ''auto''
                  then call_handle a (CallModelLoad (Some (DStr dv))) s else s) \<and>
        (en = ''higgs_audio'' \<longrightarrow> map_of (model_cache s) (shadow_key k) = None) \<and>
        map_of (model_cache s) k = Some a \<and> is_valid_for_reuse (wrappers s a) \<and> \<not> fr) \<or>
   (\<exists>a. load_model torch host f k ty en dv fr s =
          create_model torch f k ty en dv (free_before_load host ty en dv (snd (remove_model k s))) \<and>
        (en = ''higgs_audio'' \<longrightarrow> \<not> resettable s a) \<and>
        (en = ''higgs_audio'' \<longrightarrow> map_of (model_cache s) (shadow_key k) = None) \<and>
        map_of (model_cache s) k = Some a) \<or>
   (load_model torch host f k ty en dv fr s =
          create_model torch f k ty en dv (free_before_load host ty en dv s) \<and>
        (en = ''higgs_audio'' \<longrightarrow> map_of (model_cache s) (shadow_key k) = None) \<and>
        map_of (model_cache s) k = None)"
proof (cases "en = ''higgs_audio''")
  case True
  show ?thesis
  proof (cases "map_of (model_cache s) (shadow_key k)")
    case (Some a)
    then show ?thesis using True by (simp add: load_model_def)
  next
    case None
    show ?thesis
    proof (cases "map_of (model_cache s) k")
      case n: None
      then show ?thesis using True None by (simp add: load_model_def)
    next
      case (Some a)
      show ?thesis
      proof (cases "reinitialize_in_place a dv s")
        case (Inl e)
        then show ?thesis
          using True None Some reinitialize_error [of a dv s e] by (simp add: load_model_def)
      next
        case (Inr s')
        then show ?thesis using True None Some by (simp add: load_model_def)
      qed
    qed
  qed
next
  case False
  then show ?thesis by (cases "map_of (model_cache s) k") (simp_all add: load_model_def)
qed

lemma load_model_cases:
  obtains
    (resurrect) a where "load_model torch host f k ty en dv fr s = resurrect a k s"
      "en = ''higgs_audio''" "map_of (model_cache s) (shadow_key k) = Some a"
  | (reinit) a s' where "load_model torch host f k ty en dv fr s = (Inr a, s')"
      "reinitialize_in_place a dv s = Inr s'"
      "en = ''higgs_audio''" "map_of (model_cache s) (shadow_key k) = None"
      "map_of (model_cache s) k = Some a"
  | (reuse) a where "load_model torch host f k ty en dv fr s =
        (Inr a, if current_device (wrappers s a) \<noteq> DStr dv \<and> dv \<noteq> ''auto''
                then call_handle a (CallModelLoad (Some (DStr dv))) s else s)"
      "en = ''higgs_audio'' \<longrightarrow> map_of (model_cache s) (shadow_key k) = None"
      "map_of (model_cache s) k = Some a" "is_valid_for_reuse (wrappers s a)" "\<not> fr"
  | (recreate) a where "load_model torch host f k ty en dv fr s =
        create_model torch f k ty en dv (free_before_load host ty en dv (snd (remove_model k s)))"
      "en = ''higgs_audio'' \<longrightarrow> \<not> resettable s a"
      "en = ''higgs_audio'' \<longrightarrow> map_of (model_cache s) (shadow_key k) = None"
      "map_of (model_cache s) k = Some a"
  | (create) "load_model torch host f k ty en dv fr s =
        create_model torch f k ty en dv (free_before_load host ty en dv s)"
      "en = ''higgs_audio'' \<longrightarrow> map_of (model_cache s) (shadow_key k) = None"
      "map_of (model_cache s) k = None"
  using load_model_disj [of torch host f k ty en dv fr s]
  by (elim disjE exE conjE) (erule meta_mp | assumption)+


lemma create_after_free_flag:
  assumes "flag s0 = flag s"
  shows "flag (snd (create_model torch f k ty en dv (free_before_load host ty en dv s0))) \<in>
      insert (flag s) (set (case free_memory host of Some (calls, raises) \<Rightarrow> detach_readings calls | None \<Rightarrow> []))"
  using free_before_load_flag [of host ty en dv s0] assms by simp

lemma load_model_flag:
  "flag (snd (load_model torch host f k ty en dv fr s)) \<in>
     insert (flag s) (set (case free_memory host of Some (calls, raises) \<Rightarrow> detach_readings calls | None \<Rightarrow> []))"
proof (cases rule: load_model_cases [of torch host f k ty en dv fr s])
  case (resurrect a) then show ?thesis by simp
next
  case (reinit a s') then show ?thesis by (simp add: reinitialize_result)
next
  case (reuse a) then show ?thesis by (simp add: call_handle_flag)
next
  case (recreate a) then show ?thesis
    using create_after_free_flag [of "snd (remove_model k s)" s] by simp
next
  case create then show ?thesis
    using create_after_free_flag [of s s] by simp
qed





lemma step_flag: "flag (step x s) \<in> insert (flag s) (set (clock_readings x))"
proof (cases x)
  case (LoadModel torch host f k ty en dv fr)
  then show ?thesis using load_model_flag [of torch host f k ty en dv fr s] by simp
next
  case (HandleCall a c)
  then show ?thesis by (cases c) (simp_all add: call_handle_flag)
qed (simp_all add: clear_cache_def)

lemma run_flag: "flag (run xs s) \<in> insert (flag s) (set (concat (map clock_readings xs)))"
proof (induction xs arbitrary: s)
  case Nil show ?case by simp
next
  case (Cons x xs)
  show ?case using Cons.IH [of "step x s"] step_flag [of x s] by auto
qed

subsection \<open>The wrapper: size accounting, eviction, cloning\<close>






text \<open>
  C5. For a wrapper that is loaded on the GPU and whose instance has a \<open>to\<close> method,
  \<open>partially_unload\<close> to \<open>'cpu'\<close> returns normally when \<open>to\<close> raises: it sets
  \<open>current_device\<close> to \<open>'cpu'\<close>, clears \<open>_is_loaded_on_gpu\<close> and returns
  \<open>_memory_size\<close>, the same wrapper state and result as when \<open>to\<close> succeeds.
\<close>

theorem transfer_failure_counts_as_evicted:
  assumes "is_loaded_on_gpu w" and "i_to m = Some raises" and "raises (DStr ''cpu'')"
    and "i_to m2 = Some succeeds" and "\<not> succeeds (DStr ''cpu'')"
  shows "partially_unload (DStr ''cpu'') n w (Some m) =
           (memory_size w, w\<lparr>current_device := DStr ''cpu'', is_loaded_on_gpu := False\<rparr>, Some m) \<and>
         fst (partially_unload (DStr ''cpu'') n w (Some m2)) =
           fst (partially_unload (DStr ''cpu'') n w (Some m)) \<and>
         fst (snd (partially_unload (DStr ''cpu'') n w (Some m2))) =
           fst (snd (partially_unload (DStr ''cpu'') n w (Some m)))"
  using assms by (simp add: partially_unload_def instance_to_def)

theorem transfer_failure_counts_as_evicted_witness:
  "is_loaded_on_gpu chatterbox_wrapper \<and>
   i_to failing_module = Some (\<lambda>d. True) \<and>
   i_to small_module = Some (\<lambda>d. False) \<and>
   partially_unload (DStr ''cpu'') 1 chatterbox_wrapper (Some failing_module) =
     (4194304, chatterbox_wrapper\<lparr>current_device := DStr ''cpu'', is_loaded_on_gpu := False\<rparr>,
      Some failing_module) \<and>
   fst (partially_unload (DStr ''cpu'') 1 chatterbox_wrapper (Some small_module)) = 4194304"
  using transfer_failure_counts_as_evicted
          [of chatterbox_wrapper failing_module "\<lambda>d. True" small_module "\<lambda>d. False" 1]
  by (simp add: chatterbox_wrapper_def failing_module_def small_module_def)

text \<open>
  C10, as amended. \<open>is_clone\<close> returns \<open>False\<close> for every pair of wrappers: the class body
  binds the name a second time, to a method that compares nothing.
\<close>

theorem is_clone_never: "\<not> is_clone a b"
  by (simp add: is_clone_def)

text \<open>
  C10 as stated fails: two wrappers of the same engine and kind are not clones of each
  other.
\<close>

theorem is_clone_counterexample:
  "engine (model_info chatterbox_wrapper) =
     engine (model_info (chatterbox_wrapper\<lparr>memory_size := 1\<rparr>)) \<and>
   model_type (model_info chatterbox_wrapper) =
     model_type (model_info (chatterbox_wrapper\<lparr>memory_size := 1\<rparr>)) \<and>
   is_clone chatterbox_wrapper (Some (chatterbox_wrapper\<lparr>memory_size := 1\<rparr>)) = False"
  by (simp add: is_clone_def)

subsection \<open>The memory estimator\<close>

lemma sum_parameters_sum: "sum_parameters ps t = t + sum_list (map (\<lambda>(n, e). n * e) ps)"
  by (induction ps arbitrary: t) (auto simp: case_prod_unfold)

lemma estimate_result:
  "estimate_model_memory p =
     (if p = ParametersRaise then Inl ParametersError else Inr (buffer_bytes p))"
  by (cases p) (simp_all add: buffer_bytes_def sum_parameters_sum)

lemma sum_components_result:
  "sum_components cs t =
     (if ParametersRaise \<in> set (map c_parameters cs) then Inl ParametersError
      else Inr (t + sum_list (map (\<lambda>c. buffer_bytes (c_parameters c)) cs)))"
proof (induction cs arbitrary: t)
  case Nil show ?case by simp
next
  case (Cons c cs)
  show ?case
    by (cases "c_parameters c") (simp_all add: Cons.IH estimate_result buffer_bytes_def)
qed

text \<open>
  C9, as amended. \<open>calculate_model_memory\<close> has no handler: it raises exactly when the
  enumeration of parameters it reaches raises (of the instance, or, for an instance
  without \<open>parameters\<close>, of one of the values of its \<open>__dict__\<close>). Otherwise it returns
  the sum over the parameters of the instance; for an instance without \<open>parameters\<close> but
  with \<open>__dict__\<close>, the sum over the values that have parameters, which is 0 when none
  has; and 1 GiB only for an instance that has neither \<open>parameters\<close> nor \<open>__dict__\<close>.
\<close>

theorem estimator_results:
  "calculate_model_memory mo =
     (if enumeration_raises mo then Inl ParametersError else Inr (expected_size mo)) \<and>
   ((\<exists>e. calculate_model_memory mo = Inl e) = enumeration_raises mo) \<and>
   (exposes_nothing mo \<longrightarrow> calculate_model_memory mo = Inr GiB)"
proof -
  have eq: "calculate_model_memory mo =
     (if enumeration_raises mo then Inl ParametersError else Inr (expected_size mo))"
  proof (cases mo)
    case None then show ?thesis by (simp add: enumeration_raises_def expected_size_def)
  next
    case (Some m)
    have c: "map (c_parameters \<circ> snd) items = map (\<lambda>(n, c). c_parameters c) items"
      and b: "map ((\<lambda>c. buffer_bytes (c_parameters c)) \<circ> snd) items =
              map (\<lambda>(n, c). buffer_bytes (c_parameters c)) items"
      for items :: "(string \<times> component) list"
      by (induction items) auto
    show ?thesis using Some
      by (cases "i_parameters m"; cases "i_dict m")
         (simp_all add: enumeration_raises_def expected_size_def estimate_result
            sum_components_result c b)
  qed
  have "exposes_nothing mo \<Longrightarrow> \<not> enumeration_raises mo \<and> expected_size mo = GiB"
    by (auto simp: exposes_nothing_def enumeration_raises_def expected_size_def
             split: option.splits)
  then show ?thesis using eq by auto
qed

theorem estimator_results_witness:
  "exposes_nothing (Some blank_inst) \<and> calculate_model_memory (Some blank_inst) = Inr 1073741824 \<and>
   expected_size (Some plain_object) = 0 \<and> calculate_model_memory (Some plain_object) = Inr 0"
  using estimator_results [of "Some blank_inst"] estimator_results [of "Some plain_object"]
  by (simp add: exposes_nothing_def blank_inst_def GiB_def plain_object_def expected_size_def
        buffer_bytes_def enumeration_raises_def)

text \<open>
  C9 as stated fails twice: an object with attributes of which none has parameters gets
  the estimate 0, not 1 GiB, and an error raised by \<open>parameters()\<close> reaches the caller.
\<close>

theorem estimator_counterexample:
  "i_parameters plain_object = NoParameters \<and>
   calculate_model_memory (Some plain_object) = Inr 0 \<and>
   calculate_model_memory (Some broken_object) = Inl ParametersError"
  by (simp add: plain_object_def broken_object_def)

subsection \<open>The invalidation flag\<close>

text \<open>
  C7, as amended. Only \<open>detach\<close> writes \<open>_global_cache_invalidation_flag\<close>, and it writes
  the reading of the wall clock: after any sequence of operations the flag is its old
  value or one of the readings taken, so it has not decreased when no reading lies below
  the old value, and after a \<open>detach\<close> it is the reading of that call.
\<close>

theorem epoch_follows_clock:
  assumes "\<forall>t \<in> set (concat (map clock_readings xs)). flag s \<le> t"
  shows "flag s \<le> flag (run xs s) \<and>
         flag (run xs s) \<in> insert (flag s) (set (concat (map clock_readings xs))) \<and>
         flag (step (HandleCall a (CallDetach now)) (run xs s)) = now"
  using assms run_flag [of xs s] by (auto simp: call_handle_flag)

theorem epoch_follows_clock_witness:
  "concat (map clock_readings [HandleCall 0 (CallDetach 5)]) = [5] \<and>
   flag start = 0 \<and>
   flag start \<le> flag (run [HandleCall 0 (CallDetach 5)] start) \<and>
   flag (step (HandleCall 0 (CallDetach 7)) (run [HandleCall 0 (CallDetach 5)] start)) = 7"
  using epoch_follows_clock [of "[HandleCall 0 (CallDetach 5)]" start 0 7]
  by (simp add: start_def)

text \<open>
  C7 as stated fails: a second \<open>detach\<close> at the same clock reading leaves the flag where
  it was, and a \<open>detach\<close> at a lower reading lowers it.
\<close>

theorem epoch_counterexample:
  "\<not> flag (run [HandleCall 0 (CallDetach 100)] start)
       < flag (run [HandleCall 0 (CallDetach 100), HandleCall 0 (CallDetach 100)] start) \<and>
   flag (run [HandleCall 0 (CallDetach 100), HandleCall 0 (CallDetach 50)] start)
       < flag (run [HandleCall 0 (CallDetach 100)] start)"
  by (simp add: call_handle_flag)

subsection \<open>Statistics\<close>

lemma map_of_count_up:
  "map_of (count_up k d) t =
     (if t = k then Some ((case map_of d k of None \<Rightarrow> 0 | Some n \<Rightarrow> n) + 1) else map_of d t)"
  by (simp add: count_up_def update_conv')

lemma fold_count_up:
  "\<forall>t n. map_of d0 t = Some n \<longrightarrow> 0 < n \<Longrightarrow>
   map_of (fold (\<lambda>w d. count_up (g w) d) ws d0) t =
     count_opt ((case map_of d0 t of None \<Rightarrow> 0 | Some n \<Rightarrow> n) + length (filter (\<lambda>w. g w = t) ws))"
proof (induction ws arbitrary: d0)
  case Nil
  then show ?case by (auto simp: count_opt_def split: option.splits)
next
  case (Cons w ws)
  have pos: "\<forall>t n. map_of (count_up (g w) d0) t = Some n \<longrightarrow> 0 < n"
    using Cons.prems by (auto simp: map_of_count_up split: if_splits)
  have "map_of (fold (\<lambda>w d. count_up (g w) d) ws (count_up (g w) d0)) t =
     count_opt ((case map_of (count_up (g w) d0) t of None \<Rightarrow> 0 | Some n \<Rightarrow> n) +
                length (filter (\<lambda>w. g w = t) ws))"
    by (rule Cons.IH [OF pos])
  then show ?case
    by (cases "g w = t") (simp_all add: map_of_count_up)
qed

lemma cache_values_filter:
  "length (filter (\<lambda>w. g w = t) (cache_values s)) =
   length (filter (\<lambda>(key, b). g (wrappers s b) = t) (model_cache s))"
  unfolding cache_values_def
  by (induction "model_cache s" arbitrary: s) (auto simp: filter_map comp_def case_prod_unfold)

text \<open>
  C8, as amended. \<open>get_stats\<close> aggregates over every entry of \<open>_model_cache\<close>, the
  entries under shadow keys included: \<open>total_models\<close> is the length of the dictionary,
  \<open>total_memory_mb\<close> comes from the sum of \<open>loaded_size()\<close> over all its values, and
  \<open>by_type\<close> and \<open>by_engine\<close> count all its values, so a wrapper stored under a shadow
  key is counted in each.
\<close>

theorem stats_cover_whole_cache:
  assumes "(shadow_key k, a) \<in> set (model_cache s)"
  shows "total_models (get_stats c s) = length (model_cache s) \<and>
         0 < total_models (get_stats c s) \<and>
         total_memory_mb (get_stats c s) =
           sum_list (map (\<lambda>(key, b). loaded_size (wrappers s b)) (model_cache s)) div 1024 div 1024 \<and>
         map_of (by_type (get_stats c s)) t =
           count_opt (length (filter (\<lambda>(key, b). model_type (model_info (wrappers s b)) = t)
                                (model_cache s))) \<and>
         map_of (by_engine (get_stats c s)) e =
           count_opt (length (filter (\<lambda>(key, b). engine (model_info (wrappers s b)) = e)
                                (model_cache s))) \<and>
         map_of (by_type (get_stats c s)) (model_type (model_info (wrappers s a))) \<noteq> None \<and>
         map_of (by_engine (get_stats c s)) (engine (model_info (wrappers s a))) \<noteq> None"
proof -
  have ty: "map_of (by_type (get_stats c s)) t =
           count_opt (length (filter (\<lambda>(key, b). model_type (model_info (wrappers s b)) = t)
                                (model_cache s)))" for t
    using fold_count_up [where ?d0.0 = "[]" and g = "\<lambda>w. model_type (model_info w)" and ws = "cache_values s" and t = t]
    by (simp add: get_stats_def
          cache_values_filter [of "\<lambda>w. model_type (model_info w)"])
  have en: "map_of (by_engine (get_stats c s)) e =
           count_opt (length (filter (\<lambda>(key, b). engine (model_info (wrappers s b)) = e)
                                (model_cache s)))" for e
    using fold_count_up [where ?d0.0 = "[]" and g = "\<lambda>w. engine (model_info w)" and ws = "cache_values s" and t = e]
    by (simp add: get_stats_def
          cache_values_filter [of "\<lambda>w. engine (model_info w)"])
  have mem: "total_memory_mb (get_stats c s) =
           sum_list (map (\<lambda>(key, b). loaded_size (wrappers s b)) (model_cache s)) div 1024 div 1024"
    by (simp add: get_stats_def cache_values_def comp_def case_prod_unfold)
  have pos: "0 < length (filter (\<lambda>(key, b). g (wrappers s b) = g (wrappers s a)) (model_cache s))"
    for g :: "wrapper \<Rightarrow> string"
    using assms by (auto simp: filter_empty_conv)
  have tot: "total_models (get_stats c s) = length (model_cache s)"
    by (simp add: get_stats_def)
  have ne: "model_cache s \<noteq> []" using assms by auto
  show ?thesis
    using ty en mem tot ne
          pos [of "\<lambda>w. model_type (model_info w)"] pos [of "\<lambda>w. engine (model_info w)"]
    by (simp add: count_opt_def)
qed

lemma quarantined_cache: "model_cache quarantined_state = [(''_shadow_k'', 0)]"
  unfolding quarantined_state_def by code_simp

lemma quarantined_wrapper:
  "model_info (wrappers quarantined_state 0) =
     \<lparr>info_model = Some 0, model_type = ''tts'', engine = ''higgs_audio'', info_device = ''cuda'',
      info_memory_size = 4194304, info_load_device = ''cuda''\<rparr> \<and>
   loaded_size (wrappers quarantined_state 0) = 4194304"
  unfolding quarantined_state_def
  by (simp add: load_model_def start_def shadow_key_def create_model_def free_before_load_def
        no_host_def small_factory_def small_module_def init_def torch0_def Let_def remove_model_def
        loaded_size_def)

theorem stats_cover_whole_cache_witness:
  "(shadow_key ''k'', 0) \<in> set (model_cache quarantined_state) \<and>
   map_of (model_cache quarantined_state) ''k'' = None \<and>
   total_models (get_stats False quarantined_state) = 1 \<and>
   total_memory_mb (get_stats False quarantined_state) = 4 \<and>
   map_of (by_type (get_stats False quarantined_state)) ''tts'' = Some 1 \<and>
   map_of (by_engine (get_stats False quarantined_state)) ''higgs_audio'' = Some 1"
  using stats_cover_whole_cache [of "''k''" 0 quarantined_state False "''tts''" "''higgs_audio''"]
  by (simp add: quarantined_cache quarantined_wrapper shadow_key_def count_opt_def)

text \<open>
  C8 as stated fails: after \<open>remove_model\<close> has moved a Higgs Audio wrapper to its shadow
  key, \<open>get_stats\<close> still counts it as a model, under its kind and its engine, and its 4
  MiB as loaded.
\<close>

theorem stats_counterexample:
  "map_of (model_cache quarantined_state) ''k'' = None \<and>
   map_of (model_cache quarantined_state) (shadow_key ''k'') = Some 0 \<and>
   total_models (get_stats False quarantined_state) = 1 \<and>
   total_memory_mb (get_stats False quarantined_state) = 4 \<and>
   by_type (get_stats False quarantined_state) = [(''tts'', 1)] \<and>
   by_engine (get_stats False quarantined_state) = [(''higgs_audio'', 1)]"
  by (simp add: quarantined_cache quarantined_wrapper shadow_key_def get_stats_def cache_values_def
        count_up_def)

subsection \<open>Shadow storage and resurrection\<close>

lemma shadow_key_neq [simp]: "shadow_key k \<noteq> k" "k \<noteq> shadow_key k"
  by (simp_all add: shadow_key_def)

lemma shadow_key_inj [simp]: "(shadow_key j = shadow_key k) = (j = k)"
  by (simp add: shadow_key_def)




subsection \<open>Reuse of a cached wrapper\<close>



lemma init_valid: "init torch ma mo mi = Inr w \<Longrightarrow> is_valid_for_reuse w \<and> model_info w = mi \<and> model w = ma"
  by (auto simp: init_def Let_def split: if_splits option.splits prod.splits)

lemma create_model_result:
  assumes "create_model torch f k ty en dv s0 = (Inr a, s1)"
  shows "a = next_wrapper s0" and "next_wrapper s1 = Suc a"
    and "model_cache s1 = AList.update k a (model_cache s0)"
    and "is_valid_for_reuse (wrappers s1 a)"
    and "engine (model_info (wrappers s1 a)) = en"
    and "\<forall>b. b \<noteq> a \<longrightarrow> wrappers s1 b = wrappers s0 b"
  using assms
  by (auto simp: create_model_def Let_def split: sum.splits option.splits dest!: init_valid)

lemma create_model_error:
  assumes "create_model torch f k ty en dv s0 = (Inl e, s1)"
  shows "model_cache s1 = model_cache s0 \<and> wrappers s1 = wrappers s0 \<and> next_wrapper s1 = next_wrapper s0"
  using assms
  by (auto simp: create_model_def Let_def split: sum.splits option.splits)

lemma remove_model_cache:
  "model_cache (snd (remove_model k s)) =
     (case map_of (model_cache s) k of
        None \<Rightarrow> model_cache s
      | Some a \<Rightarrow> if engine (model_info (wrappers s a)) = ''higgs_audio''
                  then AList.update (shadow_key k) a (AList.delete k (model_cache s))
                  else AList.delete k (model_cache s))"
  by (simp add: remove_model_def split: option.splits)

lemma kept_engine: "kept w w' \<Longrightarrow> engine (model_info w') = engine (model_info w)"
  by (simp add: kept_def)

lemma remove_models_only_deletes:
  assumes "\<forall>k\<in>set ks. \<forall>a. map_of (model_cache s) k = Some a \<longrightarrow>
             engine (model_info (wrappers s a)) \<noteq> ''higgs_audio''"
    and "map_of (model_cache s) j = None"
  shows "map_of (model_cache (remove_models ks s)) j = None"
  using assms
proof (induction ks arbitrary: s)
  case Nil then show ?case by simp
next
  case (Cons k ks)
  let ?s' = "snd (remove_model k s)"
  have c: "model_cache ?s' = model_cache s \<or> model_cache ?s' = AList.delete k (model_cache s)"
    using Cons.prems(1) by (auto simp: remove_model_cache split: option.splits)
  have e: "engine (model_info (wrappers ?s' b)) = engine (model_info (wrappers s b))" for b
    using remove_model_kept [of s b k] by (rule kept_engine)
  have p: "\<forall>k'\<in>set ks. \<forall>a. map_of (model_cache ?s') k' = Some a \<longrightarrow>
             engine (model_info (wrappers ?s' a)) \<noteq> ''higgs_audio''"
    using c Cons.prems(1) by (auto simp: e delete_conv' split: if_splits)
  have n: "map_of (model_cache ?s') j = None"
    using c Cons.prems(2) by (auto simp: delete_conv')
  show ?case using Cons.IH [OF p n] by simp
qed

lemma models_to_clear_engine:
  assumes "dict_ok s" and "k \<in> set (models_to_clear en s)" and "map_of (model_cache s) k = Some a"
  shows "engine (model_info (wrappers s a)) \<noteq> en"
proof -
  obtain b where b: "(k, b) \<in> set (model_cache s)" "engine (model_info (wrappers s b)) \<noteq> en"
    using assms(2) by (auto simp: models_to_clear_def)
  have "map_of (model_cache s) k = Some b"
    using assms(1) b(1) by (simp add: dict_ok_def)
  then show ?thesis using assms(3) b(2) by simp
qed

lemma clear_other_engines_higgs:
  assumes "dict_ok s" and "map_of (model_cache s) j = None"
  shows "map_of (model_cache (clear_other_engines ty ''higgs_audio'' s)) j = None"
  using assms remove_models_only_deletes [of "models_to_clear ''higgs_audio'' s" s j]
        models_to_clear_engine [of s _ "''higgs_audio''"]
  by (auto simp: clear_other_engines_def)

lemma host_calls_dict_ok: "dict_ok (host_calls cs s) = dict_ok s"
  by (simp add: dict_ok_def)

lemma free_before_load_higgs:
  assumes "dict_ok s" and "map_of (model_cache s) j = None"
  shows "map_of (model_cache (free_before_load host ty ''higgs_audio'' dv s)) j = None"
proof -
  have "map_of (model_cache (clear_other_engines ty ''higgs_audio'' (host_calls cs s))) j = None" for cs
    using assms by (intro clear_other_engines_higgs) (simp_all add: host_calls_dict_ok)
  then show ?thesis
    using assms clear_other_engines_higgs [of s j ty]
    by (auto simp: free_before_load_def split: option.splits)
qed






subsection \<open>Active and shadow keys\<close>

lemma prefixed_shadow [simp]: "prefixed (shadow_key j)"
  by (simp add: prefixed_def shadow_key_def)

lemma not_prefixed_neq: "\<not> prefixed k \<Longrightarrow> k \<noteq> shadow_key j"
  by auto

lemma cache_invI:
  assumes "dict_ok s"
    and "\<And>k a. map_of (model_cache s) k = Some a \<Longrightarrow>
           a < next_wrapper s \<and>
           (if prefixed k then engine (model_info (wrappers s a)) = ''higgs_audio''
            else engine (model_info (wrappers s a)) = E k \<and>
                 map_of (model_cache s) (shadow_key k) = None)"
    and "\<And>j. \<not> prefixed j \<Longrightarrow> map_of (model_cache s) (shadow_key j) \<noteq> None \<Longrightarrow>
           E j = ''higgs_audio''"
  shows "cache_inv E s"
  unfolding cache_inv_def using assms by blast

lemma cache_inv_dict_ok: "cache_inv E s \<Longrightarrow> dict_ok s"
  unfolding cache_inv_def by blast

lemma cache_inv_entry:
  "cache_inv E s \<Longrightarrow> map_of (model_cache s) k = Some a \<Longrightarrow>
     a < next_wrapper s \<and>
     (if prefixed k then engine (model_info (wrappers s a)) = ''higgs_audio''
      else engine (model_info (wrappers s a)) = E k \<and>
           map_of (model_cache s) (shadow_key k) = None)"
  unfolding cache_inv_def by blast

lemma cache_inv_shadowed:
  "cache_inv E s \<Longrightarrow> \<not> prefixed j \<Longrightarrow> map_of (model_cache s) (shadow_key j) \<noteq> None \<Longrightarrow>
     E j = ''higgs_audio''"
  unfolding cache_inv_def by blast

lemma cache_inv_start: "cache_inv E start"
  by (rule cache_invI) (simp_all add: dict_ok_def start_def)

lemma cache_inv_frame:
  assumes "cache_inv E s" and "model_cache s' = model_cache s" and "grows s s'"
  shows "cache_inv E s'"
proof (rule cache_invI)
  show "dict_ok s'" using cache_inv_dict_ok [OF assms(1)] by (simp add: dict_ok_def assms(2))
next
  fix k a
  assume "map_of (model_cache s') k = Some a"
  then have o: "map_of (model_cache s) k = Some a" by (simp add: assms(2))
  note e = cache_inv_entry [OF assms(1) o]
  have a: "a < next_wrapper s" using e by simp
  have "engine (model_info (wrappers s' a)) = engine (model_info (wrappers s a))"
    using assms(3) a by (simp add: grows_def kept_def)
  moreover have "next_wrapper s \<le> next_wrapper s'" using assms(3) by (simp add: grows_def)
  ultimately show "a < next_wrapper s' \<and>
           (if prefixed k then engine (model_info (wrappers s' a)) = ''higgs_audio''
            else engine (model_info (wrappers s' a)) = E k \<and>
                 map_of (model_cache s') (shadow_key k) = None)"
    using e by (simp add: assms(2))
next
  fix j
  assume "\<not> prefixed j" "map_of (model_cache s') (shadow_key j) \<noteq> None"
  then show "E j = ''higgs_audio''" using cache_inv_shadowed [OF assms(1), of j] by (simp add: assms(2))
qed

lemma cache_inv_call_handle: "cache_inv E s \<Longrightarrow> cache_inv E (call_handle a c s)"
  by (rule cache_inv_frame [where s = s]) (simp_all add: call_handle_grows)

lemma cache_inv_host_calls: "cache_inv E s \<Longrightarrow> cache_inv E (host_calls cs s)"
proof (induction cs arbitrary: s)
  case Nil then show ?case by simp
next
  case (Cons c cs)
  obtain a h where c: "c = (a, h)" by (cases c)
  show ?case using Cons.IH [OF cache_inv_call_handle [OF Cons.prems]] by (simp add: c)
qed

lemma cache_inv_delete:
  assumes "cache_inv E s"
  shows "cache_inv E (s\<lparr>model_cache := AList.delete k (model_cache s)\<rparr>)"
proof (rule cache_invI)
  show "dict_ok (s\<lparr>model_cache := AList.delete k (model_cache s)\<rparr>)"
    using cache_inv_dict_ok [OF assms] by (simp add: dict_ok_def distinct_delete)
next
  fix x b
  assume "map_of (model_cache (s\<lparr>model_cache := AList.delete k (model_cache s)\<rparr>)) x = Some b"
  then have o: "map_of (model_cache s) x = Some b"
    by (simp add: delete_conv' split: if_splits)
  show "b < next_wrapper (s\<lparr>model_cache := AList.delete k (model_cache s)\<rparr>) \<and>
        (if prefixed x
         then engine (model_info (wrappers (s\<lparr>model_cache := AList.delete k (model_cache s)\<rparr>) b)) = ''higgs_audio''
         else engine (model_info (wrappers (s\<lparr>model_cache := AList.delete k (model_cache s)\<rparr>) b)) = E x \<and>
              map_of (model_cache (s\<lparr>model_cache := AList.delete k (model_cache s)\<rparr>)) (shadow_key x) = None)"
    using cache_inv_entry [OF assms o] by (simp add: delete_conv')
next
  fix j
  assume "\<not> prefixed j"
    "map_of (model_cache (s\<lparr>model_cache := AList.delete k (model_cache s)\<rparr>)) (shadow_key j) \<noteq> None"
  then show "E j = ''higgs_audio''"
    using cache_inv_shadowed [OF assms, of j] by (simp add: delete_conv' split: if_splits)
qed

lemma cache_inv_shadow:
  assumes "cache_inv E s" and "map_of (model_cache s) k = Some a"
    and "engine (model_info (wrappers s a)) = ''higgs_audio''"
  shows "cache_inv E (s\<lparr>model_cache := AList.update (shadow_key k) a (AList.delete k (model_cache s))\<rparr>)"
    (is "cache_inv E ?s'")
proof (rule cache_invI)
  have m: "map_of (AList.update (shadow_key k) a (AList.delete k (model_cache s))) x =
      (if x = shadow_key k then Some a else if x = k then None else map_of (model_cache s) x)" for x
    by (simp add: update_conv' delete_conv')
  have w: "wrappers ?s' = wrappers s" "next_wrapper ?s' = next_wrapper s" by simp_all
  show "dict_ok ?s'"
    using cache_inv_dict_ok [OF assms(1)] by (simp add: dict_ok_def distinct_update distinct_delete)
  {
    fix x b
    assume xb: "map_of (model_cache ?s') x = Some b"
    show "b < next_wrapper ?s' \<and>
        (if prefixed x then engine (model_info (wrappers ?s' b)) = ''higgs_audio''
         else engine (model_info (wrappers ?s' b)) = E x \<and>
              map_of (model_cache ?s') (shadow_key x) = None)"
    proof (cases "x = shadow_key k")
      case True
      then have "b = a" using xb by (simp add: m)
      then show ?thesis using True assms(3) cache_inv_entry [OF assms(1,2)] unfolding w by simp
    next
      case False
      then have o: "x \<noteq> k" "map_of (model_cache s) x = Some b"
        using xb by (auto simp: m split: if_splits)
      have "shadow_key x \<noteq> k" if "\<not> prefixed x"
        using cache_inv_entry [OF assms(1) o(2)] that assms(2) by auto
      then show ?thesis using cache_inv_entry [OF assms(1) o(2)] o(1) unfolding w by (auto simp: m)
    qed
  }
  {
    fix j
    assume j: "\<not> prefixed j" "map_of (model_cache ?s') (shadow_key j) \<noteq> None"
    show "E j = ''higgs_audio''"
    proof (cases "j = k")
      case True
      then show ?thesis using cache_inv_entry [OF assms(1,2)] assms(3) j(1) by simp
    next
      case False
      then have "map_of (model_cache s) (shadow_key j) \<noteq> None"
        using j(2) by (simp add: m split: if_splits)
      then show ?thesis using cache_inv_shadowed [OF assms(1) j(1)] by simp
    qed
  }
qed

lemma cache_inv_remove_model: "cache_inv E s \<Longrightarrow> cache_inv E (snd (remove_model k s))"
proof (cases "map_of (model_cache s) k")
  case None
  assume "cache_inv E s" then show ?thesis using None by (simp add: remove_model_def)
next
  case (Some a)
  assume i: "cache_inv E s"
  show ?thesis
  proof (cases "engine (model_info (wrappers s a)) = ''higgs_audio''")
    case True
    then show ?thesis using cache_inv_shadow [OF i Some True] Some by (simp add: remove_model_def)
  next
    case False
    then show ?thesis
      using cache_inv_call_handle [OF cache_inv_delete [OF i]] Some by (simp add: remove_model_def)
  qed
qed

lemma cache_inv_remove_models: "cache_inv E s \<Longrightarrow> cache_inv E (remove_models ks s)"
  by (induction ks arbitrary: s) (simp_all add: cache_inv_remove_model)

lemma cache_inv_free_before_load: "cache_inv E s \<Longrightarrow> cache_inv E (free_before_load host ty en dv s)"
  by (auto simp: free_before_load_def clear_other_engines_def cache_inv_host_calls
        cache_inv_remove_models split: option.splits)

lemma cache_inv_create_model:
  assumes "cache_inv E s0" and "\<not> prefixed k" and "en = E k"
    and "map_of (model_cache s0) (shadow_key k) = None"
  shows "cache_inv E (snd (create_model torch f k ty en dv s0))"
proof (cases "create_model torch f k ty en dv s0")
  case (Pair r s1)
  show ?thesis
  proof (cases r)
    case (Inl e)
    have eq: "model_cache s1 = model_cache s0" "wrappers s1 = wrappers s0"
          "next_wrapper s1 = next_wrapper s0"
      using create_model_error [of torch f k ty en dv s0 e s1] Pair Inl by simp_all
    have "cache_inv E s1"
      using assms(1) unfolding cache_inv_def dict_ok_def eq by assumption
    then show ?thesis using Pair by simp
  next
    case (Inr a)
    have c: "create_model torch f k ty en dv s0 = (Inr a, s1)" using Pair Inr by simp
    note r = create_model_result [OF c]
    have m: "map_of (model_cache s1) x = (if x = k then Some a else map_of (model_cache s0) x)" for x
      by (simp add: r(3) update_conv')
    have sk: "shadow_key x \<noteq> k" for x using assms(2) by auto
    have "cache_inv E s1"
    proof (rule cache_invI)
      show "dict_ok s1"
        using cache_inv_dict_ok [OF assms(1)] by (simp add: r(3) dict_ok_def distinct_update)
    next
      fix x b
      assume xb: "map_of (model_cache s1) x = Some b"
      show "b < next_wrapper s1 \<and>
            (if prefixed x then engine (model_info (wrappers s1 b)) = ''higgs_audio''
             else engine (model_info (wrappers s1 b)) = E x \<and>
                  map_of (model_cache s1) (shadow_key x) = None)"
      proof (cases "x = k")
        case True
        then have "b = a" using xb by (simp add: m)
        then show ?thesis using True r(2,5) assms(2,3,4) sk by (simp add: m)
      next
        case False
        then have o: "map_of (model_cache s0) x = Some b" using xb by (simp add: m)
        note e = cache_inv_entry [OF assms(1) o]
        have "b \<noteq> a" using e r(1) by simp
        then have "wrappers s1 b = wrappers s0 b" using r(6) by simp
        moreover have "b < next_wrapper s1" using e r(1,2) by simp
        ultimately show ?thesis using e sk by (simp add: m)
      qed
    next
      fix j
      assume "\<not> prefixed j" "map_of (model_cache s1) (shadow_key j) \<noteq> None"
      then show "E j = ''higgs_audio''"
        using cache_inv_shadowed [OF assms(1), of j] sk by (simp add: m)
    qed
    then show ?thesis using Pair by simp
  qed
qed

lemma cache_inv_no_shadow:
  "cache_inv E s \<Longrightarrow> \<not> prefixed k \<Longrightarrow> E k \<noteq> ''higgs_audio'' \<Longrightarrow>
   map_of (model_cache s) (shadow_key k) = None"
  using cache_inv_shadowed [of E s k] by blast

lemma cache_inv_resurrected:
  assumes "cache_inv E s" and "\<not> prefixed k" and "E k = ''higgs_audio''"
    and "map_of (model_cache s) (shadow_key k) = Some a"
    and c: "model_cache s' = AList.update k a (AList.delete (shadow_key k) (model_cache s))"
    and w: "wrappers s' = (wrappers s)(a := (wrappers s a)\<lparr>is_valid_for_reuse := True\<rparr>)"
    and n: "next_wrapper s' = next_wrapper s"
  shows "cache_inv E s'"
proof (rule cache_invI)
  have m: "map_of (model_cache s') x =
     (if x = k then Some a else if x = shadow_key k then None else map_of (model_cache s) x)" for x
    by (simp add: c update_conv' delete_conv')
  have sk: "shadow_key x \<noteq> k" for x using assms(2) by auto
  have e: "engine (model_info (wrappers s' b)) = engine (model_info (wrappers s b))" for b
    by (simp add: w)
  show "dict_ok s'"
    using cache_inv_dict_ok [OF assms(1)] by (simp add: c dict_ok_def distinct_update distinct_delete)
  {
    fix x b
    assume xb: "map_of (model_cache s') x = Some b"
    show "b < next_wrapper s' \<and>
          (if prefixed x then engine (model_info (wrappers s' b)) = ''higgs_audio''
           else engine (model_info (wrappers s' b)) = E x \<and>
                map_of (model_cache s') (shadow_key x) = None)"
    proof (cases "x = k")
      case True
      then have "b = a" using xb by (simp add: m)
      then show ?thesis
        using True cache_inv_entry [OF assms(1,4)] assms(2,3) sk unfolding e n by (simp add: m)
    next
      case False
      then have o: "x \<noteq> shadow_key k" "map_of (model_cache s) x = Some b"
        using xb by (auto simp: m split: if_splits)
      show ?thesis using cache_inv_entry [OF assms(1) o(2)] sk unfolding e n by (auto simp: m)
    qed
  }
  {
    fix j
    assume j: "\<not> prefixed j" "map_of (model_cache s') (shadow_key j) \<noteq> None"
    then have "map_of (model_cache s) (shadow_key j) \<noteq> None"
      using sk by (simp add: m split: if_splits)
    then show "E j = ''higgs_audio''" using cache_inv_shadowed [OF assms(1) j(1)] by simp
  }
qed

lemma cache_inv_resurrect:
  assumes "cache_inv E s" and "\<not> prefixed k" and "E k = ''higgs_audio''"
    and "map_of (model_cache s) (shadow_key k) = Some a"
  shows "cache_inv E (snd (resurrect a k s))"
proof (cases "resurrect a k s")
  case (Pair r s')
  show ?thesis
  proof (cases r)
    case (Inl e)
    then have "s' = s\<lparr>model_cache := AList.delete (shadow_key k) (model_cache s)\<rparr>"
      using Pair resurrect_failure by simp
    then show ?thesis using cache_inv_delete [OF assms(1)] Pair by simp
  next
    case (Inr b)
    then have p: "resurrect a k s = (Inr b, s')" using Pair by simp
    show ?thesis
      using cache_inv_resurrected [OF assms resurrect_success(2,3,4) [OF p]] Pair by simp
  qed
qed

lemma cache_inv_reinitialize:
  "cache_inv E s \<Longrightarrow> reinitialize_in_place a dv s = Inr s' \<Longrightarrow> cache_inv E s'"
  by (rule cache_inv_frame [where s = s]) (simp_all add: reinitialize_grows reinitialize_result)

lemma flags_ok_resettable: "flags_ok s \<Longrightarrow> resettable s a"
  by (simp add: flags_ok_def resettable_def split: option.splits)

lemma cache_inv_load_model:
  assumes "cache_inv E s" and "\<not> prefixed k" and "en = E k" and "flags_ok s"
  shows "cache_inv E (snd (load_model torch host f k ty en dv fr s))"
proof (cases rule: load_model_cases [of torch host f k ty en dv fr s])
  case (resurrect a)
  then show ?thesis using cache_inv_resurrect [OF assms(1,2)] assms(3) by simp
next
  case (reinit a s')
  then show ?thesis using cache_inv_reinitialize [OF assms(1)] by simp
next
  case (reuse a)
  then show ?thesis using cache_inv_call_handle [OF assms(1)] assms(1) by simp
next
  case (recreate a)
  let ?s0 = "free_before_load host ty en dv (snd (remove_model k s))"
  have i: "cache_inv E ?s0"
    by (intro cache_inv_free_before_load cache_inv_remove_model assms(1))
  have "en \<noteq> ''higgs_audio''"
    using recreate(2) flags_ok_resettable [OF assms(4)] by auto
  then have "map_of (model_cache ?s0) (shadow_key k) = None"
    using cache_inv_no_shadow [OF i assms(2)] assms(3) by simp
  then show ?thesis using cache_inv_create_model [OF i assms(2,3)] recreate(1) by simp
next
  case create
  let ?s0 = "free_before_load host ty en dv s"
  have i: "cache_inv E ?s0"
    by (intro cache_inv_free_before_load assms(1))
  have "map_of (model_cache ?s0) (shadow_key k) = None"
  proof (cases "en = ''higgs_audio''")
    case True
    then show ?thesis
      using free_before_load_higgs [OF cache_inv_dict_ok [OF assms(1)], of "shadow_key k" host ty dv]
            create(2) by simp
  next
    case False
    then show ?thesis using cache_inv_no_shadow [OF i assms(2)] assms(3) by simp
  qed
  then show ?thesis using cache_inv_create_model [OF i assms(2,3)] create(1) by simp
qed

text \<open>Every operation keeps the flags of all instances assignable, once they are.\<close>

lemma partially_unload_inst:
  "partially_unload d n w mo = (f, w', mo') \<Longrightarrow>
   map_option i_cuda_graphs_initialized mo' = map_option i_cuda_graphs_initialized mo \<and>
   map_option i_flag_assignable mo' = map_option i_flag_assignable mo"
  by (cases mo)
     (auto simp: partially_unload_def instance_to_def Let_def
           split: if_splits option.splits prod.splits)

lemma model_unload_inst:
  "model_unload n w mo = (b, w', mo') \<Longrightarrow>
   map_option i_cuda_graphs_initialized mo' = map_option i_cuda_graphs_initialized mo \<and>
   map_option i_flag_assignable mo' = map_option i_flag_assignable mo"
  by (auto simp: model_unload_def Let_def split: if_splits option.splits prod.splits
           dest: partially_unload_inst)

lemma model_load_inst:
  "model_load d w mo = (w', mo') \<Longrightarrow>
   map_option i_cuda_graphs_initialized mo' = map_option i_cuda_graphs_initialized mo \<and>
   map_option i_flag_assignable mo' = map_option i_flag_assignable mo"
  by (cases mo)
     (auto simp: model_load_def instance_to_def Let_def
           split: if_splits option.splits prod.splits)

lemma detach_inst:
  "detach now w mo = (fl, w', mo') \<Longrightarrow>
   map_option i_cuda_graphs_initialized mo' = map_option i_cuda_graphs_initialized mo \<and>
   map_option i_flag_assignable mo' = map_option i_flag_assignable mo"
  by (auto simp: detach_def Let_def split: prod.splits dest: partially_unload_inst)

lemma partially_load_inst:
  "partially_load d n w mo = (u, w', mo') \<Longrightarrow>
   map_option i_cuda_graphs_initialized mo' = map_option i_cuda_graphs_initialized mo \<and>
   map_option i_flag_assignable mo' = map_option i_flag_assignable mo"
  by (auto simp: partially_load_def Let_def split: if_splits prod.splits dest: model_load_inst)

lemma inst_flag_ok:
  assumes "map_option i_cuda_graphs_initialized mo' = map_option i_cuda_graphs_initialized mo \<and>
           map_option i_flag_assignable mo' = map_option i_flag_assignable mo"
    and "\<forall>m. mo = Some m \<longrightarrow> flag_ok m"
  shows "\<forall>m. mo' = Some m \<longrightarrow> flag_ok m"
  using assms by (cases mo; cases mo') (auto simp: flag_ok_def)

lemma flags_ok_store:
  assumes "flags_ok s" and "\<forall>m. mo = Some m \<longrightarrow> flag_ok m"
  shows "flags_ok (store a w mo s)"
  using assms by (auto simp: flags_ok_def store_def split: option.splits)

lemma flags_ok_model_of: "flags_ok s \<Longrightarrow> \<forall>m. model_of s a = Some m \<longrightarrow> flag_ok m"
  by (auto simp: flags_ok_def model_of_def)

lemma flags_ok_call_handle:
  assumes "flags_ok s"
  shows "flags_ok (call_handle a c s)"
proof (cases c)
  case (CallPartiallyUnload d n)
  obtain f w' mo' where p: "partially_unload d n (wrappers s a) (model_of s a) = (f, w', mo')"
    by (cases "partially_unload d n (wrappers s a) (model_of s a)") auto
  show ?thesis
    using flags_ok_store [OF assms inst_flag_ok [OF partially_unload_inst [OF p] flags_ok_model_of [OF assms]]]
    by (simp add: CallPartiallyUnload call_handle.simps p)
next
  case (CallModelUnload n)
  obtain f w' mo' where p: "model_unload n (wrappers s a) (model_of s a) = (f, w', mo')"
    by (cases "model_unload n (wrappers s a) (model_of s a)") auto
  show ?thesis
    using flags_ok_store [OF assms inst_flag_ok [OF model_unload_inst [OF p] flags_ok_model_of [OF assms]]]
    by (simp add: CallModelUnload call_handle.simps p)
next
  case (CallModelLoad d)
  obtain w' mo' where p: "model_load d (wrappers s a) (model_of s a) = (w', mo')"
    by (cases "model_load d (wrappers s a) (model_of s a)") auto
  show ?thesis
    using flags_ok_store [OF assms inst_flag_ok [OF model_load_inst [OF p] flags_ok_model_of [OF assms]]]
    by (simp add: CallModelLoad call_handle.simps p)
next
  case (CallDetach now)
  obtain f w' mo' where p: "detach now (wrappers s a) (model_of s a) = (f, w', mo')"
    by (cases "detach now (wrappers s a) (model_of s a)") auto
  have "flags_ok (store a w' mo' s)"
    by (rule flags_ok_store [OF assms inst_flag_ok [OF detach_inst [OF p] flags_ok_model_of [OF assms]]])
  then show ?thesis
    by (simp add: CallDetach call_handle.simps p flags_ok_def)
next
  case (CallPartiallyLoad d n)
  obtain f w' mo' where p: "partially_load d n (wrappers s a) (model_of s a) = (f, w', mo')"
    by (cases "partially_load d n (wrappers s a) (model_of s a)") auto
  show ?thesis
    using flags_ok_store [OF assms inst_flag_ok [OF partially_load_inst [OF p] flags_ok_model_of [OF assms]]]
    by (simp add: CallPartiallyLoad call_handle.simps p)
qed (simp_all add: assms call_handle.simps)

lemma flags_ok_cache: "flags_ok (s\<lparr>model_cache := c\<rparr>) = flags_ok s"
  by (simp add: flags_ok_def)

lemma flags_ok_remove_model: "flags_ok s \<Longrightarrow> flags_ok (snd (remove_model k s))"
  by (auto simp: remove_model_def flags_ok_cache flags_ok_call_handle split: option.splits)

lemma flags_ok_remove_models: "flags_ok s \<Longrightarrow> flags_ok (remove_models ks s)"
  by (induction ks arbitrary: s) (simp_all add: flags_ok_remove_model)

lemma flags_ok_host_calls: "flags_ok s \<Longrightarrow> flags_ok (host_calls cs s)"
proof (induction cs arbitrary: s)
  case Nil then show ?case by simp
next
  case (Cons c cs)
  obtain a h where c: "c = (a, h)" by (cases c)
  show ?case using Cons.IH [OF flags_ok_call_handle [OF Cons.prems]] by (simp add: c)
qed

lemma flags_ok_free_before_load: "flags_ok s \<Longrightarrow> flags_ok (free_before_load host ty en dv s)"
  by (auto simp: free_before_load_def clear_other_engines_def flags_ok_host_calls
        flags_ok_remove_models split: option.splits)

lemma flags_ok_create_model:
  assumes "flags_ok s" and "case f dv of Inr (Some m) \<Rightarrow> flag_ok m | _ \<Rightarrow> True"
  shows "flags_ok (snd (create_model torch f k ty en dv s))"
  using assms
  by (auto simp: create_model_def flags_ok_def Let_def split: sum.splits option.splits)

lemma flags_ok_reset:
  "flags_ok s \<Longrightarrow> reset_cuda_graph_state a s = Inr s' \<Longrightarrow> flags_ok s'"
  by (auto simp: reset_cuda_graph_state_def flags_ok_def flag_ok_def
           split: option.splits if_splits)

lemma flags_ok_set_valid: "flags_ok (set_valid_for_reuse a b s) = flags_ok s"
  by (simp add: flags_ok_def)

lemma flags_ok_reinitialize:
  assumes "flags_ok s" and "reinitialize_in_place a dv s = Inr s'"
  shows "flags_ok s'"
proof (cases "reset_cuda_graph_state a s")
  case (Inl e)
  then show ?thesis using assms(2) by (simp add: reinitialize_in_place_def)
next
  case (Inr s1)
  have "s' = set_valid_for_reuse a True (call_handle a (CallModelLoad (Some (DStr dv))) s1)"
    using assms(2) Inr by (auto simp: reinitialize_in_place_def)
  then show ?thesis
    using flags_ok_call_handle [OF flags_ok_reset [OF assms(1) Inr]]
    by (simp add: flags_ok_set_valid)
qed

lemma flags_ok_resurrect:
  assumes "flags_ok s"
  shows "flags_ok (snd (resurrect a k s))"
proof (cases "reset_cuda_graph_state a
                (s\<lparr>model_cache := AList.delete (shadow_key k) (model_cache s)\<rparr>)")
  case (Inl e)
  then show ?thesis using assms by (simp add: resurrect_def flags_ok_cache)
next
  case (Inr s2)
  have "flags_ok s2"
    using flags_ok_reset [OF _ Inr] assms by (simp add: flags_ok_cache)
  then show ?thesis using Inr by (simp add: resurrect_def flags_ok_set_valid flags_ok_cache)
qed

lemma flags_ok_load_model:
  assumes "flags_ok s" and "case f dv of Inr (Some m) \<Rightarrow> flag_ok m | _ \<Rightarrow> True"
  shows "flags_ok (snd (load_model torch host f k ty en dv fr s))"
proof (cases rule: load_model_cases [of torch host f k ty en dv fr s])
  case (resurrect a)
  then show ?thesis using flags_ok_resurrect [OF assms(1)] by simp
next
  case (reinit a s')
  then show ?thesis using flags_ok_reinitialize [OF assms(1)] by simp
next
  case (reuse a)
  then show ?thesis using flags_ok_call_handle [OF assms(1)] assms(1) by simp
next
  case (recreate a)
  have "flags_ok (free_before_load host ty en dv (snd (remove_model k s)))"
    by (intro flags_ok_free_before_load flags_ok_remove_model assms(1))
  then have "flags_ok (snd (create_model torch f k ty en dv
                              (free_before_load host ty en dv (snd (remove_model k s)))))"
    using assms(2) by (rule flags_ok_create_model)
  then show ?thesis using recreate(1) by simp
next
  case create
  have "flags_ok (free_before_load host ty en dv s)"
    by (intro flags_ok_free_before_load assms(1))
  then have "flags_ok (snd (create_model torch f k ty en dv (free_before_load host ty en dv s)))"
    using assms(2) by (rule flags_ok_create_model)
  then show ?thesis using create(1) by simp
qed

lemma flags_ok_step:
  assumes "flags_ok s" and "assignable_flags x"
  shows "flags_ok (step x s)"
proof (cases x)
  case (LoadModel torch host f k ty en dv fr)
  then show ?thesis using flags_ok_load_model [OF assms(1)] assms(2) by simp
qed (simp_all add: assms(1) flags_ok_remove_model flags_ok_call_handle clear_cache_def
       flags_ok_remove_models)

lemma flags_ok_start: "flags_ok start"
  by (simp add: flags_ok_def flag_ok_def start_def blank_inst_def)

lemma cache_inv_step:
  assumes "cache_inv E s" and "flags_ok s" and "same_engine E x" and "plain_key x"
  shows "cache_inv E (step x s)"
proof (cases x)
  case (LoadModel torch host f k ty en dv fr)
  then show ?thesis using cache_inv_load_model [OF assms(1) _ _ assms(2)] assms(3,4) by simp
qed (simp_all add: assms(1) cache_inv_remove_model cache_inv_call_handle clear_cache_def
       cache_inv_remove_models)

lemma cache_inv_run:
  assumes "cache_inv E s" and "flags_ok s"
    and "\<forall>x\<in>set xs. same_engine E x \<and> plain_key x \<and> assignable_flags x"
  shows "cache_inv E (run xs s)"
  using assms
proof (induction xs arbitrary: s)
  case Nil then show ?case by simp
next
  case (Cons x xs)
  have "cache_inv E (step x s)" using Cons.prems by (intro cache_inv_step) simp_all
  moreover have "flags_ok (step x s)" using Cons.prems by (intro flags_ok_step) simp_all
  ultimately show ?case using Cons.IH Cons.prems(3) by simp
qed

text \<open>
  C3, as amended. When no key passed to \<open>load_model\<close> begins with \<open>_shadow_\<close>, every key
  is loaded with one engine string, and every factory builds an instance whose
  \<open>cuda_graphs_initialized\<close>, if it has one, can be assigned (so that no in-place
  reinitialisation raises), then after any sequence of calls of the manager, the wrappers
  and the host, no key that does not begin with \<open>_shadow_\<close> is in \<open>_model_cache\<close> both
  under its own name and under its shadow key.
\<close>

theorem namespaces_disjoint:
  assumes "\<forall>x\<in>set xs. same_engine E x \<and> plain_key x \<and> assignable_flags x"
    and "\<not> prefixed k"
  shows "\<not> (map_of (model_cache (run xs start)) k \<noteq> None \<and>
            map_of (model_cache (run xs start)) (shadow_key k) \<noteq> None)"
proof
  assume a: "map_of (model_cache (run xs start)) k \<noteq> None \<and>
            map_of (model_cache (run xs start)) (shadow_key k) \<noteq> None"
  then obtain b where b: "map_of (model_cache (run xs start)) k = Some b" by auto
  have "map_of (model_cache (run xs start)) (shadow_key k) = None"
    using cache_inv_entry [OF cache_inv_run [OF cache_inv_start flags_ok_start assms(1)] b]
          assms(2) by simp
  then show False using a by simp
qed

lemma colliding_keys_cache:
  "model_cache (run colliding_keys_run start) = [(''m'', 0), (''_shadow_m'', 1)]"
  unfolding colliding_keys_run_def by code_simp

lemma twice_cleared_cache:
  "model_cache (run twice_cleared_run start) = [(''_shadow__shadow_k'', 0), (''_shadow_k'', 1)]"
  unfolding twice_cleared_run_def by code_simp

lemma resurrecting_cache: "model_cache (run resurrecting_run start) = [(''k'', 0)]"
  unfolding resurrecting_run_def by code_simp

lemma failed_reinit_cache:
  "model_cache (run failed_reinit_run start) = [(''_shadow_k'', 0), (''k'', 1)]"
  unfolding failed_reinit_run_def by code_simp

theorem namespaces_disjoint_witness:
  "list_all (same_engine (\<lambda>k. ''higgs_audio'')) resurrecting_run \<and>
   list_all plain_key resurrecting_run \<and>
   list_all assignable_flags resurrecting_run \<and>
   \<not> prefixed ''k'' \<and>
   map_of (model_cache (run resurrecting_run start)) ''k'' = Some 0 \<and>
   map_of (model_cache (run resurrecting_run start)) (shadow_key ''k'') = None"
proof -
  have ok: "\<forall>x\<in>set resurrecting_run.
              same_engine (\<lambda>k. ''higgs_audio'') x \<and> plain_key x \<and> assignable_flags x"
    by (simp add: resurrecting_run_def prefixed_def small_factory_def small_module_def
          flag_ok_def)
  have p: "\<not> prefixed ''k''" by (simp add: prefixed_def)
  show ?thesis
    using namespaces_disjoint [OF ok p] ok p
    by (simp add: resurrecting_cache shadow_key_def list_all_iff)
qed

text \<open>
  C3 as stated fails: a client that loads under \<open>m\<close> and under \<open>_shadow_m\<close>, always with
  the engine \<open>chatterbox\<close>, has \<open>m\<close> under its name and under its shadow key; and with the
  key \<open>k\<close> alone, always loaded as \<open>higgs_audio\<close>, two calls of \<open>clear_cache\<close> shadow
  the shadow entry, after which \<open>_shadow_k\<close> is taken under its name and under its own
  shadow key; and with the key \<open>k\<close> alone, always loaded as \<open>higgs_audio\<close>, a model
  whose flag is read-only is shadowed and replaced when the in-place reinitialisation of
  its detached wrapper raises, after which \<open>k\<close> is taken under its name and under its
  shadow key.
\<close>

theorem namespaces_counterexample:
  "list_all (same_engine (\<lambda>k. ''chatterbox'')) colliding_keys_run \<and>
   map_of (model_cache (run colliding_keys_run start)) ''m'' = Some 0 \<and>
   map_of (model_cache (run colliding_keys_run start)) (shadow_key ''m'') = Some 1 \<and>
   list_all (same_engine (\<lambda>k. ''higgs_audio'')) twice_cleared_run \<and>
   list_all plain_key twice_cleared_run \<and>
   map_of (model_cache (run twice_cleared_run start)) ''_shadow_k'' = Some 1 \<and>
   map_of (model_cache (run twice_cleared_run start)) (shadow_key ''_shadow_k'') = Some 0 \<and>
   list_all (same_engine (\<lambda>k. ''higgs_audio'')) failed_reinit_run \<and>
   list_all plain_key failed_reinit_run \<and>
   map_of (model_cache (run failed_reinit_run start)) ''k'' = Some 1 \<and>
   map_of (model_cache (run failed_reinit_run start)) (shadow_key ''k'') = Some 0"
proof -
  have "list_all (same_engine (\<lambda>k. ''chatterbox'')) colliding_keys_run"
    by (simp add: colliding_keys_run_def)
  moreover have "list_all (same_engine (\<lambda>k. ''higgs_audio'')) twice_cleared_run"
    "list_all plain_key twice_cleared_run"
    by (simp_all add: twice_cleared_run_def prefixed_def)
  moreover have "list_all (same_engine (\<lambda>k. ''higgs_audio'')) failed_reinit_run"
    "list_all plain_key failed_reinit_run"
    by (simp_all add: failed_reinit_run_def prefixed_def)
  ultimately show ?thesis
    by (simp add: colliding_keys_cache twice_cleared_cache failed_reinit_cache shadow_key_def)
qed

subsection \<open>Higgs Audio wrappers under \<open>remove_model\<close> and \<open>clear_cache\<close>\<close>

text \<open>
  \<open>remove_model\<close> and \<open>clear_cache\<close> call \<open>model_unload\<close> on wrappers of other engines
  only, so no sequence of them changes a field of a Higgs Audio wrapper.
\<close>

lemma remove_model_other_engine:
  assumes "engine (model_info (wrappers s a)) = ''higgs_audio''"
  shows "wrappers (snd (remove_model k s)) a = wrappers s a"
proof (cases "map_of (model_cache s) k")
  case None then show ?thesis by (simp add: remove_model_def)
next
  case (Some b)
  show ?thesis
  proof (cases "engine (model_info (wrappers s b)) = ''higgs_audio''")
    case True then show ?thesis using Some by (simp add: remove_model_def)
  next
    case False
    then have "a \<noteq> b" using assms by auto
    then show ?thesis
      using Some False
        call_handle_other [of a b "CallModelUnload None"
                              "s\<lparr>model_cache := AList.delete k (model_cache s)\<rparr>"]
      by (simp add: remove_model_def)
  qed
qed

lemma remove_models_other_engine:
  "engine (model_info (wrappers s a)) = ''higgs_audio'' \<Longrightarrow>
   wrappers (remove_models ks s) a = wrappers s a"
proof (induction ks arbitrary: s)
  case Nil show ?case by simp
next
  case (Cons k ks)
  have "wrappers (snd (remove_model k s)) a = wrappers s a"
    using Cons.prems by (rule remove_model_other_engine)
  then show ?case using Cons.IH [of "snd (remove_model k s)"] Cons.prems by simp
qed

lemma higgs_wrapper_never_unloaded:
  assumes "engine (model_info (wrappers s a)) = ''higgs_audio''"
    and "\<forall>x\<in>set xs. (\<exists>k. x = RemoveModel k) \<or> (\<exists>ty en. x = ClearCache ty en)"
  shows "wrappers (run xs s) a = wrappers s a"
  using assms
proof (induction xs arbitrary: s)
  case Nil show ?case by simp
next
  case (Cons x xs)
  have "wrappers (step x s) a = wrappers s a"
    using Cons.prems
    by (auto simp: clear_cache_def remove_model_other_engine remove_models_other_engine)
  then show ?case using Cons.IH [of "step x s"] Cons.prems by simp
qed

lemma two_generations_cache:
  "model_cache two_generations_state = [(''_shadow__shadow_k'', 0), (''k'', 1)]"
  unfolding two_generations_state_def by code_simp

lemma two_generations_engine:
  "engine (model_info (wrappers two_generations_state 0)) = ''higgs_audio''"
  unfolding two_generations_state_def by code_simp

lemma two_generations_after:
  "model_cache (run [RemoveModel ''k'', ClearCache (Some ''tts'') None] two_generations_state) =
     [(''_shadow__shadow_k'', 1)]"
  unfolding two_generations_state_def by code_simp

text \<open>
  C6 fails on the code. With a Higgs Audio wrapper of kind \<open>vc\<close> under
  \<open>_shadow__shadow_k\<close> and one of kind \<open>tts\<close> under \<open>k\<close>, \<open>remove_model('k')\<close> and
  \<open>clear_cache(model_type='tts')\<close> move the second wrapper onto the key of the first:
  the first wrapper, and with it its instance, is no longer in \<open>_model_cache\<close>.
\<close>

theorem shadow_slot_overwritten:
  "engine (model_info (wrappers two_generations_state 0)) = ''higgs_audio'' \<and>
   0 \<in> set (map snd (model_cache two_generations_state)) \<and>
   0 \<notin> set (map snd (model_cache
                (run [RemoveModel ''k'', ClearCache (Some ''tts'') None] two_generations_state)))"
  unfolding two_generations_after two_generations_cache
  by (simp add: two_generations_engine)

end
